theory Spec2Isabelle
  imports Main "HOL-Library.Word"
begin

unbundle bit_operations_syntax

section \<open>Common conventions\<close>

text \<open>
  Python integers are unbounded and are modelled as \<open>int\<close>: \<open>a >> k\<close> is
  \<open>drop_bit k a\<close>, \<open>a << k\<close> is \<open>push_bit k a\<close>, \<open>&\<close>, \<open>|\<close> and \<open>~\<close> are
  \<open>AND\<close>, \<open>OR\<close> and \<open>NOT\<close>. A shift by a negative count raises ValueError in
  Python, so every shift whose count is a field of the state is guarded.
  Exceptions are values of \<open>py_error\<close>, returned on the left of a sum.
  Record fields carry a short prefix (\<open>cl_\<close>, \<open>c_\<close>, \<open>e_\<close>, \<open>t_\<close>, \<open>pte_\<close>,
  \<open>w_\<close>, \<open>r_\<close>) because the source reuses field names such as \<open>valid\<close> across classes.
\<close>

datatype py_error = ValueError | IndexError | KeyError | OverflowError

section \<open>01\_Cache\_Basics/cache\_simulator.py\<close>

datatype AccessType = READ | WRITE

text \<open>\<open>CacheLine\<close>: the dataclass with its defaults.\<close>

record CacheLine =
  cl_valid :: bool
  cl_dirty :: bool
  cl_tag :: int
  cl_lru_counter :: int

definition CacheLine_default :: CacheLine where
  "CacheLine_default =
     \<lparr>cl_valid = False, cl_dirty = False, cl_tag = 0, cl_lru_counter = 0\<rparr>"

text \<open>\<open>Cache\<close>: every attribute that \<open>__init__\<close> sets.\<close>

record Cache =
  c_size :: int
  c_block_size :: int
  c_associativity :: int
  c_address_bits :: int
  c_num_blocks :: int
  c_num_sets :: int
  c_offset_bits :: int
  c_index_bits :: int
  c_tag_bits :: int
  c_cache :: "CacheLine list list"
  c_read_hits :: int
  c_read_misses :: int
  c_write_hits :: int
  c_write_misses :: int
  c_evictions :: int
  c_dirty_evictions :: int
  c_global_lru_counter :: int

text \<open>\<open>Cache._is_power_of_2\<close>: \<open>n > 0 and (n & (n - 1)) == 0\<close>.\<close>

definition is_power_of_2 :: "int \<Rightarrow> bool" where
  "is_power_of_2 n = (n > 0 \<and> n AND (n - 1) = 0)"

text \<open>
  \<open>int(math.log2(n))\<close>. The constructor calls it only on values that passed
  \<open>_is_power_of_2\<close>, where the floating-point logarithm is exact, so the
  integer floor logarithm computes the same number.
\<close>

function log2_floor :: "nat \<Rightarrow> nat" where
  "log2_floor n = (if n < 2 then 0 else Suc (log2_floor (n div 2)))"
  by pat_completeness auto
termination
  by (relation "measure id") auto

declare log2_floor.simps [simp del]

definition int_log2 :: "int \<Rightarrow> int" where
  "int_log2 n = int (log2_floor (nat n))"

text \<open>
  \<open>Cache.__init__\<close>: the three validation steps, the geometry, the second
  validation on the number of sets, the bit-field widths and the storage
  (the parameter \<open>size\<close> is written \<open>sz\<close>).
\<close>

definition Cache_init :: "int \<Rightarrow> int \<Rightarrow> int \<Rightarrow> int \<Rightarrow> py_error + Cache" where
  "Cache_init sz block_size associativity address_bits =
     (if sz \<le> 0 \<or> block_size \<le> 0 \<or> associativity \<le> 0 then Inl ValueError
      else if sz mod block_size \<noteq> 0 then Inl ValueError
      else if \<not> is_power_of_2 block_size then Inl ValueError
      else
        let num_blocks = sz div block_size;
            num_sets = num_blocks div associativity
        in if \<not> is_power_of_2 num_sets then Inl ValueError
           else
             let offset_bits = int_log2 block_size;
                 index_bits = int_log2 num_sets;
                 tag_bits = address_bits - index_bits - offset_bits
             in Inr \<lparr>c_size = sz, c_block_size = block_size,
                     c_associativity = associativity, c_address_bits = address_bits,
                     c_num_blocks = num_blocks, c_num_sets = num_sets,
                     c_offset_bits = offset_bits, c_index_bits = index_bits,
                     c_tag_bits = tag_bits,
                     c_cache = replicate (nat num_sets)
                                 (replicate (nat associativity) CacheLine_default),
                     c_read_hits = 0, c_read_misses = 0, c_write_hits = 0,
                     c_write_misses = 0, c_evictions = 0, c_dirty_evictions = 0,
                     c_global_lru_counter = 0\<rparr>)"

text \<open>
  \<open>Cache._decompose_address\<close>. The three shifts \<open>1 << offset_bits\<close>,
  \<open>1 << index_bits\<close>, \<open>1 << tag_bits\<close> and the two right shifts raise
  ValueError on a negative count; all failures are the same exception, so the
  guard is one test.
\<close>

definition decompose_address :: "Cache \<Rightarrow> int \<Rightarrow> py_error + (int \<times> int \<times> int)" where
  "decompose_address c address =
     (if c_offset_bits c < 0 \<or> c_index_bits c < 0 \<or> c_tag_bits c < 0 then Inl ValueError
      else
        let ob = nat (c_offset_bits c); ib = nat (c_index_bits c); tb = nat (c_tag_bits c);
            offset = address AND (push_bit ob 1 - 1);
            index = drop_bit ob address AND (push_bit ib 1 - 1);
            tag = drop_bit (ob + ib) address AND (push_bit tb 1 - 1)
        in Inr (tag, index, offset))"

text \<open>\<open>self.cache[set_idx][way]\<close> for non-negative indices; IndexError out of range.\<close>

definition line_at :: "CacheLine list list \<Rightarrow> nat \<Rightarrow> nat \<Rightarrow> py_error + CacheLine" where
  "line_at cs set_idx way =
     (if set_idx < length cs \<and> way < length (cs ! set_idx)
      then Inr (cs ! set_idx ! way) else Inl IndexError)"

text \<open>
  \<open>Cache._find_line\<close>: the loop over \<open>range(self.associativity)\<close> with its early
  return, as a recursion over the remaining way indices.
\<close>

fun find_line_loop :: "CacheLine list list \<Rightarrow> nat \<Rightarrow> int \<Rightarrow> nat list \<Rightarrow> py_error + nat option" where
  "find_line_loop cs set_idx tag [] = Inr None"
| "find_line_loop cs set_idx tag (way # ways) =
     (case line_at cs set_idx way of
        Inl e \<Rightarrow> Inl e
      | Inr line \<Rightarrow>
          if cl_valid line \<and> cl_tag line = tag then Inr (Some way)
          else find_line_loop cs set_idx tag ways)"

definition find_line :: "Cache \<Rightarrow> nat \<Rightarrow> int \<Rightarrow> py_error + nat option" where
  "find_line c set_idx tag =
     find_line_loop (c_cache c) set_idx tag [0 ..< nat (c_associativity c)]"

text \<open>
  \<open>Cache._find_victim\<close>: first loop (an invalid way, lowest index first), then
  the LRU loop over \<open>range(1, associativity)\<close> carrying \<open>lru_way\<close> and \<open>min_lru\<close>.
\<close>

fun find_invalid_loop :: "CacheLine list list \<Rightarrow> nat \<Rightarrow> nat list \<Rightarrow> py_error + nat option" where
  "find_invalid_loop cs set_idx [] = Inr None"
| "find_invalid_loop cs set_idx (way # ways) =
     (case line_at cs set_idx way of
        Inl e \<Rightarrow> Inl e
      | Inr line \<Rightarrow>
          if \<not> cl_valid line then Inr (Some way)
          else find_invalid_loop cs set_idx ways)"

fun lru_loop :: "CacheLine list list \<Rightarrow> nat \<Rightarrow> nat \<Rightarrow> int \<Rightarrow> nat list \<Rightarrow> py_error + nat" where
  "lru_loop cs set_idx lru_way min_lru [] = Inr lru_way"
| "lru_loop cs set_idx lru_way min_lru (way # ways) =
     (case line_at cs set_idx way of
        Inl e \<Rightarrow> Inl e
      | Inr line \<Rightarrow>
          if cl_lru_counter line < min_lru
          then lru_loop cs set_idx way (cl_lru_counter line) ways
          else lru_loop cs set_idx lru_way min_lru ways)"

definition find_victim :: "Cache \<Rightarrow> nat \<Rightarrow> py_error + nat" where
  "find_victim c set_idx =
     (case find_invalid_loop (c_cache c) set_idx [0 ..< nat (c_associativity c)] of
        Inl e \<Rightarrow> Inl e
      | Inr (Some way) \<Rightarrow> Inr way
      | Inr None \<Rightarrow>
          (case line_at (c_cache c) set_idx 0 of
             Inl e \<Rightarrow> Inl e
           | Inr line0 \<Rightarrow>
               lru_loop (c_cache c) set_idx 0 (cl_lru_counter line0)
                 [1 ..< nat (c_associativity c)]))"

text \<open>Assignment to a field of \<open>self.cache[set_idx][way]\<close>, the line being an object in place.\<close>

definition set_line :: "CacheLine list list \<Rightarrow> nat \<Rightarrow> nat \<Rightarrow> CacheLine \<Rightarrow> CacheLine list list" where
  "set_line cs set_idx way line = cs[set_idx := (cs ! set_idx)[way := line]]"

text \<open>\<open>Cache._update_lru\<close>; IndexError if the line does not exist.\<close>

definition update_lru :: "Cache \<Rightarrow> nat \<Rightarrow> nat \<Rightarrow> py_error + Cache" where
  "update_lru c set_idx way =
     (let g = c_global_lru_counter c + 1 in
      case line_at (c_cache c) set_idx way of
        Inl e \<Rightarrow> Inl e
      | Inr line \<Rightarrow>
          Inr (c\<lparr>c_global_lru_counter := g,
                 c_cache := set_line (c_cache c) set_idx way (line\<lparr>cl_lru_counter := g\<rparr>)\<rparr>))"

text \<open>
  \<open>Cache.access\<close>. The set index is the result of a mask with a non-negative
  constant, so it is never negative and Python's negative-index wrap does not
  apply. The printing is left out; the one state change that the source makes
  inside \<open>if verbose:\<close> (the \<open>dirty_evictions\<close> counter) is kept there.
\<close>

definition access_hit :: "Cache \<Rightarrow> nat \<Rightarrow> nat \<Rightarrow> AccessType \<Rightarrow> py_error + Cache" where
  "access_hit c index way access_type =
     (if access_type = READ
      then update_lru (c\<lparr>c_read_hits := c_read_hits c + 1\<rparr>) index way
      else
        (case line_at (c_cache c) index way of
           Inl e \<Rightarrow> Inl e
         | Inr line \<Rightarrow>
             update_lru
               (c\<lparr>c_write_hits := c_write_hits c + 1,
                  c_cache := set_line (c_cache c) index way (line\<lparr>cl_dirty := True\<rparr>)\<rparr>)
               index way))"

definition access_miss :: "Cache \<Rightarrow> nat \<Rightarrow> int \<Rightarrow> AccessType \<Rightarrow> bool \<Rightarrow> py_error + Cache" where
  "access_miss c index tag access_type verbose =
     (let c1 = (if access_type = READ
                then c\<lparr>c_read_misses := c_read_misses c + 1\<rparr>
                else c\<lparr>c_write_misses := c_write_misses c + 1\<rparr>)
      in case find_victim c1 index of
           Inl e \<Rightarrow> Inl e
         | Inr victim_way \<Rightarrow>
             (case line_at (c_cache c1) index victim_way of
                Inl e \<Rightarrow> Inl e
              | Inr victim_line \<Rightarrow>
                  let c2 = (if verbose \<and> cl_valid victim_line \<and> cl_dirty victim_line
                            then c1\<lparr>c_dirty_evictions := c_dirty_evictions c1 + 1\<rparr> else c1);
                      c3 = (if cl_valid victim_line
                            then c2\<lparr>c_evictions := c_evictions c2 + 1\<rparr> else c2);
                      new_line = victim_line\<lparr>cl_valid := True, cl_tag := tag,
                                              cl_dirty := (access_type = WRITE)\<rparr>
                  in update_lru
                       (c3\<lparr>c_cache := set_line (c_cache c3) index victim_way new_line\<rparr>)
                       index victim_way))"

definition access :: "Cache \<Rightarrow> int \<Rightarrow> AccessType \<Rightarrow> bool \<Rightarrow> py_error + (bool \<times> Cache)" where
  "access c address access_type verbose =
     (case decompose_address c address of
        Inl e \<Rightarrow> Inl e
      | Inr (tag, index, offset) \<Rightarrow>
          (case find_line c (nat index) tag of
             Inl e \<Rightarrow> Inl e
           | Inr (Some way) \<Rightarrow>
               (case access_hit c (nat index) way access_type of
                  Inl e \<Rightarrow> Inl e
                | Inr c' \<Rightarrow> Inr (True, c'))
           | Inr None \<Rightarrow>
               (case access_miss c (nat index) tag access_type verbose of
                  Inl e \<Rightarrow> Inl e
                | Inr c' \<Rightarrow> Inr (False, c'))))"



text \<open>
  A sequence of \<open>access\<close> calls on one cache object; the first exception ends
  the run, as it would propagate to the caller.
\<close>

fun run_accesses :: "Cache \<Rightarrow> (int \<times> AccessType \<times> bool) list \<Rightarrow> py_error + Cache" where
  "run_accesses c [] = Inr c"
| "run_accesses c ((address, access_type, verbose) # rest) =
     (case access c address access_type verbose of
        Inl e \<Rightarrow> Inl e
      | Inr (hit, c') \<Rightarrow> run_accesses c' rest)"

text \<open>
  The LRU invariant: over the valid lines of all sets, every counter is at most
  the global counter and the nonzero counters are pairwise different.
\<close>

definition valid_lines :: "Cache \<Rightarrow> CacheLine list" where
  "valid_lines c = filter cl_valid (concat (c_cache c))"

definition lru_inv :: "Cache \<Rightarrow> bool" where
  "lru_inv c =
     (list_all (\<lambda>l. cl_lru_counter l \<le> c_global_lru_counter c) (valid_lines c) \<and>
      distinct (filter (\<lambda>k. k \<noteq> 0) (map cl_lru_counter (valid_lines c))))"

text \<open>
  Two concrete states used as inputs below: a 128-byte two-way cache whose
  single set is full, and the state one read of address \<open>0x1C0\<close> leads to.
\<close>

definition cache_full :: Cache where
  "cache_full =
     \<lparr>c_size = 128, c_block_size = 64, c_associativity = 2, c_address_bits = 32,
      c_num_blocks = 2, c_num_sets = 1, c_offset_bits = 6, c_index_bits = 0, c_tag_bits = 26,
      c_cache = [[\<lparr>cl_valid = True, cl_dirty = False, cl_tag = 1, cl_lru_counter = 5\<rparr>,
                  \<lparr>cl_valid = True, cl_dirty = True, cl_tag = 2, cl_lru_counter = 3\<rparr>]],
      c_read_hits = 0, c_read_misses = 2, c_write_hits = 3, c_write_misses = 0,
      c_evictions = 0, c_dirty_evictions = 0, c_global_lru_counter = 5\<rparr>"

definition cache_after :: Cache where
  "cache_after =
     \<lparr>c_size = 128, c_block_size = 64, c_associativity = 2, c_address_bits = 32,
      c_num_blocks = 2, c_num_sets = 1, c_offset_bits = 6, c_index_bits = 0, c_tag_bits = 26,
      c_cache = [[\<lparr>cl_valid = True, cl_dirty = False, cl_tag = 1, cl_lru_counter = 5\<rparr>,
                  \<lparr>cl_valid = True, cl_dirty = False, cl_tag = 7, cl_lru_counter = 6\<rparr>]],
      c_read_hits = 0, c_read_misses = 3, c_write_hits = 3, c_write_misses = 0,
      c_evictions = 1, c_dirty_evictions = 1, c_global_lru_counter = 6\<rparr>"

text \<open>
  The cache \<open>Cache(size=128, block_size=64, associativity=2)\<close> as constructed,
  its state after four accesses, and after a fifth (a write hit).
\<close>

definition cache_fresh :: Cache where
  "cache_fresh =
     \<lparr>c_size = 128, c_block_size = 64, c_associativity = 2, c_address_bits = 32,
      c_num_blocks = 2, c_num_sets = 1, c_offset_bits = 6, c_index_bits = 0, c_tag_bits = 26,
      c_cache = [[CacheLine_default, CacheLine_default]],
      c_read_hits = 0, c_read_misses = 0, c_write_hits = 0, c_write_misses = 0,
      c_evictions = 0, c_dirty_evictions = 0, c_global_lru_counter = 0\<rparr>"

definition cache_ran :: Cache where
  "cache_ran =
     \<lparr>c_size = 128, c_block_size = 64, c_associativity = 2, c_address_bits = 32,
      c_num_blocks = 2, c_num_sets = 1, c_offset_bits = 6, c_index_bits = 0, c_tag_bits = 26,
      c_cache = [[\<lparr>cl_valid = True, cl_dirty = False, cl_tag = 1, cl_lru_counter = 3\<rparr>,
                  \<lparr>cl_valid = True, cl_dirty = False, cl_tag = 3, cl_lru_counter = 4\<rparr>]],
      c_read_hits = 1, c_read_misses = 2, c_write_hits = 0, c_write_misses = 1,
      c_evictions = 1, c_dirty_evictions = 1, c_global_lru_counter = 4\<rparr>"

definition cache_next :: Cache where
  "cache_next =
     \<lparr>c_size = 128, c_block_size = 64, c_associativity = 2, c_address_bits = 32,
      c_num_blocks = 2, c_num_sets = 1, c_offset_bits = 6, c_index_bits = 0, c_tag_bits = 26,
      c_cache = [[\<lparr>cl_valid = True, cl_dirty = True, cl_tag = 1, cl_lru_counter = 5\<rparr>,
                  \<lparr>cl_valid = True, cl_dirty = False, cl_tag = 3, cl_lru_counter = 4\<rparr>]],
      c_read_hits = 1, c_read_misses = 2, c_write_hits = 1, c_write_misses = 1,
      c_evictions = 1, c_dirty_evictions = 1, c_global_lru_counter = 5\<rparr>"

section \<open>03\_TLB/tlb\_simulator.py\<close>

text \<open>\<open>PageSize\<close>: the enum, its \<open>value\<close> and its \<open>offset_bits\<close> property.\<close>

datatype PageSize = KB_4 | MB_2 | GB_1

fun PageSize_value :: "PageSize \<Rightarrow> int" where
  "PageSize_value KB_4 = 4096"
| "PageSize_value MB_2 = 2097152"
| "PageSize_value GB_1 = 1073741824"

fun offset_bits :: "PageSize \<Rightarrow> nat" where
  "offset_bits KB_4 = 12"
| "offset_bits MB_2 = 21"
| "offset_bits GB_1 = 30"

text \<open>\<open>TLBEntry\<close>: the dataclass with its defaults.\<close>

record TLBEntry =
  e_valid :: bool
  e_vpn :: int
  e_ppn :: int
  e_page_size :: PageSize
  e_readable :: bool
  e_writable :: bool
  e_executable :: bool
  e_dirty :: bool
  e_accessed :: bool
  e_global_page :: bool
  e_lru_counter :: int

definition TLBEntry_default :: TLBEntry where
  "TLBEntry_default =
     \<lparr>e_valid = False, e_vpn = 0, e_ppn = 0, e_page_size = KB_4, e_readable = True,
      e_writable = True, e_executable = False, e_dirty = False, e_accessed = False,
      e_global_page = False, e_lru_counter = 0\<rparr>"

text \<open>
  \<open>TLB\<close>: the attributes of the object. \<open>page_table\<close> is the dictionary from
  \<open>(vpn, page_size)\<close> to the physical page number, and nothing else.
\<close>

record TLB =
  t_num_entries :: int
  t_address_bits :: int
  t_entries :: "TLBEntry list"
  t_hits :: int
  t_misses :: int
  t_global_lru_counter :: int
  t_page_table :: "(int \<times> PageSize) \<rightharpoonup> int"

definition TLB_init :: "int \<Rightarrow> int \<Rightarrow> TLB" where
  "TLB_init num_entries address_bits =
     \<lparr>t_num_entries = num_entries, t_address_bits = address_bits,
      t_entries = replicate (nat num_entries) TLBEntry_default,
      t_hits = 0, t_misses = 0, t_global_lru_counter = 0, t_page_table = Map.empty\<rparr>"

text \<open>\<open>_extract_vpn\<close>, \<open>_extract_offset\<close>, \<open>_construct_pa\<close>.\<close>

definition extract_vpn :: "int \<Rightarrow> PageSize \<Rightarrow> int" where
  "extract_vpn va page_size = drop_bit (offset_bits page_size) va"

definition extract_offset :: "int \<Rightarrow> PageSize \<Rightarrow> int" where
  "extract_offset va page_size = va AND (push_bit (offset_bits page_size) 1 - 1)"

definition construct_pa :: "int \<Rightarrow> int \<Rightarrow> PageSize \<Rightarrow> int" where
  "construct_pa ppn offset page_size = push_bit (offset_bits page_size) ppn OR offset"

text \<open>\<open>self.entries[i]\<close> for a non-negative index; IndexError out of range.\<close>

definition entry_at :: "TLBEntry list \<Rightarrow> nat \<Rightarrow> py_error + TLBEntry" where
  "entry_at es i = (if i < length es then Inr (es ! i) else Inl IndexError)"

text \<open>\<open>TLB._find_entry\<close>: the loop over \<open>range(self.num_entries)\<close>.\<close>

fun find_entry_loop :: "TLBEntry list \<Rightarrow> int \<Rightarrow> PageSize \<Rightarrow> nat list \<Rightarrow> py_error + nat option" where
  "find_entry_loop es vpn page_size [] = Inr None"
| "find_entry_loop es vpn page_size (i # rest) =
     (case entry_at es i of
        Inl e \<Rightarrow> Inl e
      | Inr entry \<Rightarrow>
          if e_valid entry \<and> e_vpn entry = vpn \<and> e_page_size entry = page_size
          then Inr (Some i)
          else find_entry_loop es vpn page_size rest)"

definition TLB_find_entry :: "TLB \<Rightarrow> int \<Rightarrow> PageSize \<Rightarrow> py_error + nat option" where
  "TLB_find_entry s vpn page_size =
     find_entry_loop (t_entries s) vpn page_size [0 ..< nat (t_num_entries s)]"

text \<open>\<open>TLB._find_victim\<close>: the invalid-entry loop, then the LRU loop.\<close>

fun victim_invalid_loop :: "TLBEntry list \<Rightarrow> nat list \<Rightarrow> py_error + nat option" where
  "victim_invalid_loop es [] = Inr None"
| "victim_invalid_loop es (i # rest) =
     (case entry_at es i of
        Inl e \<Rightarrow> Inl e
      | Inr entry \<Rightarrow>
          if \<not> e_valid entry then Inr (Some i) else victim_invalid_loop es rest)"

fun victim_lru_loop :: "TLBEntry list \<Rightarrow> nat \<Rightarrow> int \<Rightarrow> nat list \<Rightarrow> py_error + nat" where
  "victim_lru_loop es lru_idx min_lru [] = Inr lru_idx"
| "victim_lru_loop es lru_idx min_lru (i # rest) =
     (case entry_at es i of
        Inl e \<Rightarrow> Inl e
      | Inr entry \<Rightarrow>
          if e_lru_counter entry < min_lru
          then victim_lru_loop es i (e_lru_counter entry) rest
          else victim_lru_loop es lru_idx min_lru rest)"

definition TLB_find_victim :: "TLB \<Rightarrow> py_error + nat" where
  "TLB_find_victim s =
     (case victim_invalid_loop (t_entries s) [0 ..< nat (t_num_entries s)] of
        Inl e \<Rightarrow> Inl e
      | Inr (Some i) \<Rightarrow> Inr i
      | Inr None \<Rightarrow>
          (case entry_at (t_entries s) 0 of
             Inl e \<Rightarrow> Inl e
           | Inr entry0 \<Rightarrow>
               victim_lru_loop (t_entries s) 0 (e_lru_counter entry0)
                 [1 ..< nat (t_num_entries s)]))"

text \<open>\<open>TLB._update_lru\<close>.\<close>

definition TLB_update_lru :: "TLB \<Rightarrow> nat \<Rightarrow> py_error + TLB" where
  "TLB_update_lru s index =
     (let g = t_global_lru_counter s + 1 in
      case entry_at (t_entries s) index of
        Inl e \<Rightarrow> Inl e
      | Inr entry \<Rightarrow>
          Inr (s\<lparr>t_global_lru_counter := g,
                 t_entries := (t_entries s)[index := entry\<lparr>e_lru_counter := g\<rparr>]\<rparr>))"

text \<open>\<open>TLB._page_walk\<close>: \<open>self.page_table.get((vpn, page_size))\<close>.\<close>

definition TLB_page_walk :: "TLB \<Rightarrow> int \<Rightarrow> PageSize \<Rightarrow> int option" where
  "TLB_page_walk s vpn page_size = t_page_table s (vpn, page_size)"

text \<open>
  \<open>TLB.install_mapping\<close>. The parameters \<open>readable\<close>, \<open>writable\<close> and
  \<open>executable\<close> are received and, as in the source, not used: the dictionary
  entry is the physical page number alone.
\<close>

definition TLB_install_mapping ::
  "TLB \<Rightarrow> int \<Rightarrow> int \<Rightarrow> PageSize \<Rightarrow> bool \<Rightarrow> bool \<Rightarrow> bool \<Rightarrow> TLB" where
  "TLB_install_mapping s va pa page_size readable writable executable =
     (let vpn = extract_vpn va page_size;
          ppn = extract_vpn pa page_size;
          key = (vpn, page_size)
      in s\<lparr>t_page_table := (t_page_table s)(key \<mapsto> ppn)\<rparr>)"

text \<open>
  \<open>TLB.translate\<close>, without the printing. The result is the returned
  \<open>Optional[int]\<close> together with the object's new state.
\<close>

definition TLB_translate_hit :: "TLB \<Rightarrow> nat \<Rightarrow> int \<Rightarrow> PageSize \<Rightarrow> bool \<Rightarrow> py_error + (int option \<times> TLB)" where
  "TLB_translate_hit s entry_idx offset page_size is_write =
     (let s1 = s\<lparr>t_hits := t_hits s + 1\<rparr> in
      case entry_at (t_entries s1) entry_idx of
        Inl e \<Rightarrow> Inl e
      | Inr entry \<Rightarrow>
          if is_write \<and> \<not> e_writable entry then Inr (None, s1)
          else
            let ppn = e_ppn entry;
                pa = construct_pa ppn offset page_size
            in case TLB_update_lru s1 entry_idx of
                 Inl e \<Rightarrow> Inl e
               | Inr s2 \<Rightarrow>
                   let entry2 = (t_entries s2 ! entry_idx)\<lparr>e_accessed := True\<rparr>;
                       entry3 = (if is_write then entry2\<lparr>e_dirty := True\<rparr> else entry2)
                   in Inr (Some pa, s2\<lparr>t_entries := (t_entries s2)[entry_idx := entry3]\<rparr>))"

definition TLB_translate_miss :: "TLB \<Rightarrow> int \<Rightarrow> int \<Rightarrow> PageSize \<Rightarrow> bool \<Rightarrow> py_error + (int option \<times> TLB)" where
  "TLB_translate_miss s vpn offset page_size is_write =
     (let s1 = s\<lparr>t_misses := t_misses s + 1\<rparr> in
      case TLB_page_walk s1 vpn page_size of
        None \<Rightarrow> Inr (None, s1)
      | Some ppn \<Rightarrow>
          (case TLB_find_victim s1 of
             Inl e \<Rightarrow> Inl e
           | Inr victim_idx \<Rightarrow>
               (case entry_at (t_entries s1) victim_idx of
                  Inl e \<Rightarrow> Inl e
                | Inr victim \<Rightarrow>
                    let new_entry =
                          \<lparr>e_valid = True, e_vpn = vpn, e_ppn = ppn, e_page_size = page_size,
                           e_readable = True, e_writable = True, e_executable = False,
                           e_dirty = is_write, e_accessed = True, e_global_page = False,
                           e_lru_counter = 0\<rparr>;
                        s2 = s1\<lparr>t_entries := (t_entries s1)[victim_idx := new_entry]\<rparr>
                    in case TLB_update_lru s2 victim_idx of
                         Inl e \<Rightarrow> Inl e
                       | Inr s3 \<Rightarrow> Inr (Some (construct_pa ppn offset page_size), s3))))"

definition TLB_translate :: "TLB \<Rightarrow> int \<Rightarrow> PageSize \<Rightarrow> bool \<Rightarrow> py_error + (int option \<times> TLB)" where
  "TLB_translate s va page_size is_write =
     (let vpn = extract_vpn va page_size;
          offset = extract_offset va page_size
      in case TLB_find_entry s vpn page_size of
           Inl e \<Rightarrow> Inl e
         | Inr (Some entry_idx) \<Rightarrow> TLB_translate_hit s entry_idx offset page_size is_write
         | Inr None \<Rightarrow> TLB_translate_miss s vpn offset page_size is_write)"

text \<open>
  Concrete TLB states used as inputs below: a two-entry TLB whose entry 0 maps
  virtual page \<open>0x401\<close> read-only, and the same object after one rejected write.
\<close>

definition tlb_ro :: TLB where
  "tlb_ro =
     \<lparr>t_num_entries = 2, t_address_bits = 32,
      t_entries =
        [\<lparr>e_valid = True, e_vpn = 0x401, e_ppn = 0x12345, e_page_size = KB_4,
          e_readable = True, e_writable = False, e_executable = False, e_dirty = False,
          e_accessed = True, e_global_page = False, e_lru_counter = 1\<rparr>,
         TLBEntry_default],
      t_hits = 0, t_misses = 1, t_global_lru_counter = 1,
      t_page_table = [(0x401, KB_4) \<mapsto> 0x12345]\<rparr>"

text \<open>
  \<open>TLB(num_entries=2)\<close> after
  \<open>install_mapping(0x401000, 0x12345000, KB_4, readable=True, writable=False)\<close>,
  and the same object after \<open>translate(0x401234)\<close>.
\<close>

definition tlb_mapped :: TLB where
  "tlb_mapped =
     \<lparr>t_num_entries = 2, t_address_bits = 32,
      t_entries = [TLBEntry_default, TLBEntry_default],
      t_hits = 0, t_misses = 0, t_global_lru_counter = 0,
      t_page_table = [(0x401, KB_4) \<mapsto> 0x12345]\<rparr>"

definition tlb_walked :: TLB where
  "tlb_walked =
     \<lparr>t_num_entries = 2, t_address_bits = 32,
      t_entries =
        [\<lparr>e_valid = True, e_vpn = 0x401, e_ppn = 0x12345, e_page_size = KB_4,
          e_readable = True, e_writable = True, e_executable = False, e_dirty = False,
          e_accessed = True, e_global_page = False, e_lru_counter = 1\<rparr>,
         TLBEntry_default],
      t_hits = 0, t_misses = 1, t_global_lru_counter = 1,
      t_page_table = [(0x401, KB_4) \<mapsto> 0x12345]\<rparr>"

section \<open>04\_Page\_Walk/page\_walk\_sim.py\<close>

text \<open>\<open>PageTableEntry\<close>: the dataclass with its defaults.\<close>

record PageTableEntry =
  pte_valid :: bool
  pte_ppn :: int
  pte_readable :: bool
  pte_writable :: bool
  pte_executable :: bool
  pte_user :: bool
  pte_global_page :: bool
  pte_accessed :: bool
  pte_dirty :: bool
  pte_is_leaf :: bool

definition PageTableEntry_default :: PageTableEntry where
  "PageTableEntry_default =
     \<lparr>pte_valid = False, pte_ppn = 0, pte_readable = False, pte_writable = False,
      pte_executable = False, pte_user = False, pte_global_page = False,
      pte_accessed = False, pte_dirty = False, pte_is_leaf = False\<rparr>"

text \<open>
  \<open>RISCV_Sv39_PageWalker\<close>: \<open>memory\<close> is the dictionary from the physical
  address of a table to its bytes, \<open>satp\<close> the root table's address.
\<close>

type_synonym byte = "8 word"

record Walker =
  w_memory :: "int \<rightharpoonup> byte list"
  w_satp :: int
  w_page_walks :: int
  w_page_faults :: int

text \<open>
  \<open>int.to_bytes(n, byteorder='little')\<close>: OverflowError for a negative value
  or one that does not fit; and \<open>int.from_bytes(bs, byteorder='little')\<close>, which
  accepts any length.
\<close>

fun to_bytes_le :: "nat \<Rightarrow> int \<Rightarrow> byte list" where
  "to_bytes_le 0 v = []"
| "to_bytes_le (Suc n) v = word_of_int v # to_bytes_le n (drop_bit 8 v)"

definition int_to_bytes :: "nat \<Rightarrow> int \<Rightarrow> py_error + byte list" where
  "int_to_bytes n v =
     (if v < 0 \<or> 2 ^ (8 * n) \<le> v then Inl OverflowError else Inr (to_bytes_le n v))"

fun from_bytes_le :: "byte list \<Rightarrow> int" where
  "from_bytes_le [] = 0"
| "from_bytes_le (b # bs) = uint b + 256 * from_bytes_le bs"

text \<open>
  \<open>_allocate_page_table\<close>. The argument \<open>r\<close> is the outcome of
  \<open>random.randint(0x10000, 0xFFFFFF)\<close>; the new zeroed table is stored under
  the page-aligned address, replacing whatever the dictionary held there.
\<close>

definition rand_outcome :: "int \<Rightarrow> bool" where
  "rand_outcome r = (0x10000 \<le> r \<and> r \<le> 0xFFFFFF)"

definition allocate_page_table :: "int \<Rightarrow> (int \<rightharpoonup> byte list) \<Rightarrow> int \<times> (int \<rightharpoonup> byte list)" where
  "allocate_page_table r mem =
     (let pa = r AND NOT 0xFFF in (pa, mem(pa \<mapsto> replicate 4096 0)))"

text \<open>\<open>__init__\<close>: an empty memory, then the root table.\<close>

definition Walker_init :: "int \<Rightarrow> Walker" where
  "Walker_init r0 =
     (let (pa, mem) = allocate_page_table r0 Map.empty
      in \<lparr>w_memory = mem, w_satp = pa, w_page_walks = 0, w_page_faults = 0\<rparr>)"

text \<open>
  The encoding inside \<open>_write_pte\<close>: the flag bits, then
  \<open>(pte.ppn << 10) | flags\<close>.
\<close>

definition pte_flags :: "PageTableEntry \<Rightarrow> int" where
  "pte_flags pte =
     (let flags = 0;
          flags = (if pte_valid pte then flags OR 0x01 else flags);
          flags = (if pte_readable pte then flags OR 0x02 else flags);
          flags = (if pte_writable pte then flags OR 0x04 else flags);
          flags = (if pte_executable pte then flags OR 0x08 else flags);
          flags = (if pte_user pte then flags OR 0x10 else flags);
          flags = (if pte_global_page pte then flags OR 0x20 else flags);
          flags = (if pte_accessed pte then flags OR 0x40 else flags);
          flags = (if pte_dirty pte then flags OR 0x80 else flags)
      in flags)"

definition pte_encode :: "PageTableEntry \<Rightarrow> int" where
  "pte_encode pte = push_bit 10 (pte_ppn pte) OR pte_flags pte"

text \<open>
  \<open>_write_pte\<close>. \<open>to_bytes\<close> comes first (OverflowError), then the lookup
  \<open>self.memory[table_pa]\<close> (KeyError), then the slice assignment
  \<open>[offset:offset+8] = pte_bytes\<close>, whose Python meaning for a non-negative
  offset is the one written here, also when the offset is beyond the end.
\<close>

definition Sv39_write_pte :: "Walker \<Rightarrow> int \<Rightarrow> nat \<Rightarrow> PageTableEntry \<Rightarrow> py_error + Walker" where
  "Sv39_write_pte s table_pa index pte =
     (let pte_value = pte_encode pte;
          offset = index * 8
      in case int_to_bytes 8 pte_value of
           Inl e \<Rightarrow> Inl e
         | Inr pte_bytes \<Rightarrow>
             (case w_memory s table_pa of
                None \<Rightarrow> Inl KeyError
              | Some tbl \<Rightarrow>
                  Inr (s\<lparr>w_memory := (w_memory s)
                           (table_pa \<mapsto> take offset tbl @ pte_bytes @ drop (offset + 8) tbl)\<rparr>)))"

text \<open>The decoding inside \<open>_read_pte\<close>; \<open>bool(x & m)\<close> is \<open>x AND m \<noteq> 0\<close>.\<close>

definition pte_decode :: "int \<Rightarrow> PageTableEntry" where
  "pte_decode pte_value =
     (let valid = (pte_value AND 0x01 \<noteq> 0);
          readable = (pte_value AND 0x02 \<noteq> 0);
          writable = (pte_value AND 0x04 \<noteq> 0);
          executable = (pte_value AND 0x08 \<noteq> 0);
          user = (pte_value AND 0x10 \<noteq> 0);
          global_page = (pte_value AND 0x20 \<noteq> 0);
          accessed = (pte_value AND 0x40 \<noteq> 0);
          dirty = (pte_value AND 0x80 \<noteq> 0);
          ppn = drop_bit 10 pte_value;
          is_leaf = (readable \<or> writable \<or> executable)
      in \<lparr>pte_valid = valid, pte_ppn = ppn, pte_readable = readable,
          pte_writable = writable, pte_executable = executable, pte_user = user,
          pte_global_page = global_page, pte_accessed = accessed, pte_dirty = dirty,
          pte_is_leaf = is_leaf\<rparr>)"

text \<open>\<open>_read_pte\<close>: KeyError for an absent table, then the slice and the decoding.\<close>

definition Sv39_read_pte :: "Walker \<Rightarrow> int \<Rightarrow> nat \<Rightarrow> py_error + PageTableEntry" where
  "Sv39_read_pte s table_pa index =
     (let offset = index * 8
      in case w_memory s table_pa of
           None \<Rightarrow> Inl KeyError
         | Some tbl \<Rightarrow>
             let pte_bytes = take 8 (drop offset tbl);
                 pte_value = from_bytes_le pte_bytes
             in Inr (pte_decode pte_value))"

text \<open>\<open>_decompose_va\<close>.\<close>

definition decompose_va :: "int \<Rightarrow> int \<times> int \<times> int \<times> int" where
  "decompose_va va =
     (let offset = va AND 0xFFF;
          vpn0 = drop_bit 12 va AND 0x1FF;
          vpn1 = drop_bit 21 va AND 0x1FF;
          vpn2 = drop_bit 30 va AND 0x1FF
      in (vpn2, vpn1, vpn0, offset))"

text \<open>
  \<open>map_page\<close>. \<open>r1\<close> is the random outcome used if the level-1 table has to be
  allocated, \<open>r2\<close> the one used if the level-0 table has to be. The three
  table indices are masked with \<open>0x1FF\<close>, hence never negative.
\<close>

definition map_page_level ::
  "Walker \<Rightarrow> int \<Rightarrow> int \<Rightarrow> nat \<Rightarrow> py_error + (Walker \<times> PageTableEntry)" where
  "map_page_level s r table_pa vpn =
     (case Sv39_read_pte s table_pa vpn of
        Inl e \<Rightarrow> Inl e
      | Inr pte \<Rightarrow>
          if \<not> pte_valid pte then
            let (next_pa, mem) = allocate_page_table r (w_memory s);
                new_pte = PageTableEntry_default
                            \<lparr>pte_valid := True, pte_ppn := drop_bit 12 next_pa,
                             pte_is_leaf := False\<rparr>
            in case Sv39_write_pte (s\<lparr>w_memory := mem\<rparr>) table_pa vpn new_pte of
                 Inl e \<Rightarrow> Inl e
               | Inr s' \<Rightarrow> Inr (s', new_pte)
          else Inr (s, pte))"

definition Sv39_map_page ::
  "int \<Rightarrow> int \<Rightarrow> Walker \<Rightarrow> int \<Rightarrow> int \<Rightarrow> bool \<Rightarrow> bool \<Rightarrow> bool \<Rightarrow> bool \<Rightarrow> py_error + Walker" where
  "Sv39_map_page r1 r2 s va pa readable writable executable user =
     (case decompose_va va of (vpn2, vpn1, vpn0, _) \<Rightarrow>
        (case map_page_level s r1 (w_satp s) (nat vpn2) of
           Inl e \<Rightarrow> Inl e
         | Inr (s1, pte_l2) \<Rightarrow>
             let l1_pa = push_bit 12 (pte_ppn pte_l2)
             in (case map_page_level s1 r2 l1_pa (nat vpn1) of
                   Inl e \<Rightarrow> Inl e
                 | Inr (s2, pte_l1) \<Rightarrow>
                     let l0_pa = push_bit 12 (pte_ppn pte_l1);
                         ppn = drop_bit 12 pa;
                         pte_l0 = \<lparr>pte_valid = True, pte_ppn = ppn, pte_readable = readable,
                                   pte_writable = writable, pte_executable = executable,
                                   pte_user = user, pte_global_page = False,
                                   pte_accessed = False, pte_dirty = False,
                                   pte_is_leaf = True\<rparr>
                     in Sv39_write_pte s2 l0_pa (nat vpn0) pte_l0)))"

text \<open>
  \<open>translate\<close>, without the printing: the returned \<open>Optional[int]\<close> and the new
  state (the two counters).
\<close>

definition Sv39_fault :: "Walker \<Rightarrow> py_error + (int option \<times> Walker)" where
  "Sv39_fault s = Inr (None, s\<lparr>w_page_faults := w_page_faults s + 1\<rparr>)"

definition Sv39_translate :: "Walker \<Rightarrow> int \<Rightarrow> bool \<Rightarrow> py_error + (int option \<times> Walker)" where
  "Sv39_translate s0 va is_write =
     (let s = s0\<lparr>w_page_walks := w_page_walks s0 + 1\<rparr>
      in case decompose_va va of (vpn2, vpn1, vpn0, offset) \<Rightarrow>
        (case Sv39_read_pte s (w_satp s) (nat vpn2) of
           Inl e \<Rightarrow> Inl e
         | Inr pte_l2 \<Rightarrow>
             if \<not> pte_valid pte_l2 then Sv39_fault s
             else if pte_is_leaf pte_l2
             then Inr (Some (push_bit 30 (pte_ppn pte_l2) OR (va AND 0x3FFFFFFF)), s)
             else
               let l1_pa = push_bit 12 (pte_ppn pte_l2)
               in (case Sv39_read_pte s l1_pa (nat vpn1) of
                     Inl e \<Rightarrow> Inl e
                   | Inr pte_l1 \<Rightarrow>
                       if \<not> pte_valid pte_l1 then Sv39_fault s
                       else if pte_is_leaf pte_l1
                       then Inr (Some (push_bit 21 (pte_ppn pte_l1) OR (va AND 0x1FFFFF)), s)
                       else
                         let l0_pa = push_bit 12 (pte_ppn pte_l1)
                         in (case Sv39_read_pte s l0_pa (nat vpn0) of
                               Inl e \<Rightarrow> Inl e
                             | Inr pte_l0 \<Rightarrow>
                                 if \<not> pte_valid pte_l0 then Sv39_fault s
                                 else if is_write \<and> \<not> pte_writable pte_l0 then Sv39_fault s
                                 else Inr (Some (push_bit 12 (pte_ppn pte_l0) OR offset), s)))))"

text \<open>
  Concrete walker inputs used below: the walker as constructed when the random
  outcome for the root table is \<open>0x10000\<close>, a readable and writable user leaf
  entry for physical page \<open>0x12345\<close>, and the walker after that entry has been
  written to slot 1 of the root table.
\<close>

definition walker_fresh :: Walker where
  "walker_fresh =
     \<lparr>w_memory = [0x10000 \<mapsto> replicate 4096 0], w_satp = 0x10000,
      w_page_walks = 0, w_page_faults = 0\<rparr>"

definition pte_rw :: PageTableEntry where
  "pte_rw =
     \<lparr>pte_valid = True, pte_ppn = 0x12345, pte_readable = True, pte_writable = True,
      pte_executable = False, pte_user = True, pte_global_page = False,
      pte_accessed = False, pte_dirty = False, pte_is_leaf = True\<rparr>"

definition walker_written :: Walker where
  "walker_written =
     \<lparr>w_memory = [0x10000 \<mapsto>
         replicate 8 0 @ [0x17, 0x14, 0x8D, 0x04, 0, 0, 0, 0] @ replicate 4080 0],
      w_satp = 0x10000, w_page_walks = 0, w_page_faults = 0\<rparr>"

text \<open>
  A walker whose root table points (slot 0) to a level-1 table at \<open>0x20000\<close>
  holding the leaf entry above in slot 2, and the pointer entry itself.
\<close>

definition pte_ptr :: PageTableEntry where
  "pte_ptr =
     \<lparr>pte_valid = True, pte_ppn = 0x20, pte_readable = False, pte_writable = False,
      pte_executable = False, pte_user = False, pte_global_page = False,
      pte_accessed = False, pte_dirty = False, pte_is_leaf = False\<rparr>"

definition walker_mega :: Walker where
  "walker_mega =
     \<lparr>w_memory = [0x10000 \<mapsto> [0x01, 0x80, 0, 0, 0, 0, 0, 0] @ replicate 4088 0,
                  0x20000 \<mapsto>
         replicate 16 0 @ [0x17, 0x14, 0x8D, 0x04, 0, 0, 0, 0] @ replicate 4072 0],
      w_satp = 0x10000, w_page_walks = 0, w_page_faults = 0\<rparr>"

text \<open>
  The walker after \<open>map_page(0x401000, 0x12345000)\<close> when the three random
  outcomes are \<open>0x10000\<close> (root), \<open>0x20000\<close> (level 1) and \<open>0x10000\<close> again
  (level 0); and the walker when the third outcome is \<open>0x30000\<close>.
\<close>

definition walker_collided :: Walker where
  "walker_collided =
     \<lparr>w_memory = [0x20000 \<mapsto>
                    replicate 16 0 @ [0x01, 0x40, 0, 0, 0, 0, 0, 0] @ replicate 4072 0,
                  0x10000 \<mapsto>
                    replicate 8 0 @ [0x17, 0x14, 0x8D, 0x04, 0, 0, 0, 0] @ replicate 4080 0],
      w_satp = 0x10000, w_page_walks = 0, w_page_faults = 0\<rparr>"

definition walker_mapped :: Walker where
  "walker_mapped =
     \<lparr>w_memory = [0x10000 \<mapsto> [0x01, 0x80, 0, 0, 0, 0, 0, 0] @ replicate 4088 0,
                  0x20000 \<mapsto>
                    replicate 16 0 @ [0x01, 0xC0, 0, 0, 0, 0, 0, 0] @ replicate 4072 0,
                  0x30000 \<mapsto>
                    replicate 8 0 @ [0x17, 0x14, 0x8D, 0x04, 0, 0, 0, 0] @ replicate 4080 0],
      w_satp = 0x10000, w_page_walks = 0, w_page_faults = 0\<rparr>"

section \<open>06\_WebApp/app.py: the TLB endpoint\<close>

text \<open>
  The JSON body of the response of \<open>/api/tlb/translate\<close> on success, and the
  two outcomes of the handler: the success response, or the status-400 response
  that the \<open>except Exception\<close> clause produces. Addresses are kept as integers
  (the source prints them with \<open>hex\<close>).
\<close>

record tlb_response =
  r_va :: int
  r_pa :: "int option"
  r_hit :: bool
  r_hits :: int
  r_misses :: int
  r_reach :: int

datatype http_response = Ok200 tlb_response | Error400

text \<open>The dictionary \<open>page_size_map\<close> of the handler.\<close>

definition page_size_map :: "(string \<times> (PageSize \<times> nat)) list" where
  "page_size_map = [(''4KB'', (KB_4, 12)), (''2MB'', (MB_2, 21)), (''1GB'', (GB_1, 30))]"

text \<open>
  \<open>tlb_translate\<close> of app.py, from the three request fields after
  \<open>data.get\<close> and \<open>int(_, 16)\<close>: \<open>num_entries\<close>, the parsed \<open>va\<close> and the
  string \<open>page_size\<close>. \<open>page_size_map.get(page_size_str, (PageSize.KB_4, 12))\<close>
  is the lookup with its default; the local \<open>offset_bits\<close> is written
  \<open>obits\<close>. \<open>hex(pa) if pa else None\<close> is \<open>None\<close> also for \<open>pa = 0\<close>.
\<close>

definition app_tlb_translate :: "int \<Rightarrow> int \<Rightarrow> string \<Rightarrow> http_response" where
  "app_tlb_translate num_entries va page_size_str =
     (let (page_size, obits) =
            (case map_of page_size_map page_size_str of
               None \<Rightarrow> (KB_4, 12)
             | Some p \<Rightarrow> p);
          tlb = TLB_init num_entries 32;
          va_page = va AND NOT (push_bit obits 1 - 1);
          pa_page = (va_page OR 0x10000000) AND NOT (push_bit obits 1 - 1);
          tlb1 = TLB_install_mapping tlb va_page pa_page page_size True True False
      in case TLB_translate tlb1 va page_size False of
           Inl e \<Rightarrow> Error400
         | Inr (pa, tlb2) \<Rightarrow>
             Ok200 \<lparr>r_va = va,
                    r_pa = (case pa of None \<Rightarrow> None
                            | Some p \<Rightarrow> if p \<noteq> 0 then Some p else None),
                    r_hit = (pa \<noteq> None),
                    r_hits = t_hits tlb2, r_misses = t_misses tlb2,
                    r_reach = (if t_hits tlb2 > 0
                               then t_hits tlb2 * PageSize_value page_size else 0)\<rparr>)"

section \<open>Cache: geometry accepted by the constructor\<close>

text \<open>
  C2. For accepted constructor parameters the claim asks for
  \<open>num_sets * associativity * block_size = size\<close>. The constructor accepts
  size 192, block size 64, associativity 2 (three blocks, one set by floor
  division) and builds a cache of one set with two ways: the product is 128,
  not the stored size 192.
\<close>

theorem Cache_init_192_64_2_geometry:
  "map_sum id (\<lambda>c. (c_size c, c_num_blocks c, c_num_sets c, c_associativity c, c_block_size c,
            c_num_sets c * c_associativity c * c_block_size c, length (concat (c_cache c))))
     (Cache_init 192 64 2 32) = Inr (192, 3, 1, 2, 64, 128, 2)"
  by (simp add: Cache_init_def is_power_of_2_def Let_def)

text \<open>
  What does hold for every accepted geometry: the three bit widths add up to
  \<open>address_bits\<close>, and the size equation holds whenever the associativity
  divides the number of blocks.
\<close>

lemma Cache_init_bit_widths:
  "Cache_init sz block_size associativity address_bits = Inr c \<Longrightarrow>
     c_offset_bits c + c_index_bits c + c_tag_bits c = c_address_bits c \<and>
     c_address_bits c = address_bits"
  by (auto simp: Cache_init_def Let_def split: if_splits)

lemma Cache_init_size_if_divides:
  assumes "Cache_init sz block_size associativity address_bits = Inr c"
    and "associativity dvd sz div block_size"
  shows "c_num_sets c * c_associativity c * c_block_size c = c_size c \<and> c_size c = sz"
proof -
  from assms(1) have f: "c_num_sets c = sz div block_size div associativity"
    "c_associativity c = associativity" "c_block_size c = block_size" "c_size c = sz"
    "sz mod block_size = 0"
    by (auto simp: Cache_init_def Let_def split: if_splits)
  from assms(2) have "sz div block_size div associativity * associativity = sz div block_size"
    by simp
  moreover from f(5) have "sz div block_size * block_size = sz" by auto
  ultimately show ?thesis using f by simp
qed


section \<open>Cache: the loops of find\_line and find\_victim\<close>

lemma line_at_Inr: "line_at cs i w = Inr l \<longleftrightarrow> i < length cs \<and> w < length (cs ! i) \<and> l = cs ! i ! w"
  by (auto simp: line_at_def)

lemma find_line_loop_None:
  "find_line_loop cs i tag ways = Inr None \<Longrightarrow> w \<in> set ways \<Longrightarrow>
     i < length cs \<and> w < length (cs ! i) \<and> \<not> (cl_valid (cs ! i ! w) \<and> cl_tag (cs ! i ! w) = tag)"
  by (induction ways) (auto simp: line_at_Inr split: sum.splits if_splits)

lemma find_invalid_loop_upt_Some:
  "find_invalid_loop cs i [k ..< n] = Inr (Some v) \<Longrightarrow>
     k \<le> v \<and> v < n \<and> i < length cs \<and> v < length (cs ! i) \<and> \<not> cl_valid (cs ! i ! v) \<and>
     (\<forall>w. k \<le> w \<and> w < v \<longrightarrow> cl_valid (cs ! i ! w))"
proof (induction "n - k" arbitrary: k)
  case 0
  then show ?case by simp
next
  case (Suc d)
  then have kn: "k < n" by simp
  then have upt: "[k ..< n] = k # [Suc k ..< n]" by (simp add: upt_conv_Cons)
  from Suc.prems obtain l where l: "line_at cs i k = Inr l"
    by (auto simp: upt split: sum.splits)
  show ?case
  proof (cases "cl_valid l")
    case False
    with Suc.prems l show ?thesis using kn by (auto simp: upt line_at_Inr)
  next
    case True
    with Suc.prems l have rec: "find_invalid_loop cs i [Suc k ..< n] = Inr (Some v)"
      by (simp add: upt)
    from Suc.hyps have "d = n - Suc k" by simp
    from Suc.hyps(1)[OF this rec] have ih: "Suc k \<le> v" "v < n" "i < length cs"
      "v < length (cs ! i)" "\<not> cl_valid (cs ! i ! v)"
      "\<forall>w. Suc k \<le> w \<and> w < v \<longrightarrow> cl_valid (cs ! i ! w)" by simp_all
    have "cl_valid (cs ! i ! w)" if "k \<le> w" "w < v" for w
    proof (cases "w = k")
      case True
      with \<open>cl_valid l\<close> l show ?thesis by (simp add: line_at_Inr)
    next
      case False
      with that ih(6) show ?thesis by simp
    qed
    with ih show ?thesis by simp
  qed
qed

lemma find_invalid_loop_None:
  "find_invalid_loop cs i ways = Inr None \<Longrightarrow> w \<in> set ways \<Longrightarrow>
     i < length cs \<and> w < length (cs ! i) \<and> cl_valid (cs ! i ! w)"
  by (induction ways) (auto simp: line_at_Inr split: sum.splits if_splits)

lemma lru_loop_upt:
  "lru_loop cs i lw ml [k ..< n] = Inr v \<Longrightarrow> lw < k \<Longrightarrow> k \<le> n \<Longrightarrow>
   ml = cl_lru_counter (cs ! i ! lw) \<Longrightarrow>
   (\<forall>w < k. ml \<le> cl_lru_counter (cs ! i ! w)) \<Longrightarrow>
   (\<forall>w < lw. ml < cl_lru_counter (cs ! i ! w)) \<Longrightarrow>
     v < n \<and> (\<forall>w < n. cl_lru_counter (cs ! i ! v) \<le> cl_lru_counter (cs ! i ! w)) \<and>
     (\<forall>w < v. cl_lru_counter (cs ! i ! v) < cl_lru_counter (cs ! i ! w))"
proof (induction "n - k" arbitrary: k lw ml)
  case 0
  then show ?case by auto
next
  case (Suc d)
  then have kn: "k < n" by simp
  then have upt: "[k ..< n] = k # [Suc k ..< n]" by (simp add: upt_conv_Cons)
  from Suc.prems(1) obtain l where l: "line_at cs i k = Inr l"
    by (auto simp: upt split: sum.splits)
  then have lk: "l = cs ! i ! k" by (simp add: line_at_Inr)
  have d: "d = n - Suc k" using Suc.hyps by simp
  show ?case
  proof (cases "cl_lru_counter l < ml")
    case True
    with Suc.prems(1) l have rec: "lru_loop cs i k (cl_lru_counter l) [Suc k ..< n] = Inr v"
      by (simp add: upt)
    have a: "\<forall>w < Suc k. cl_lru_counter l \<le> cl_lru_counter (cs ! i ! w)"
      using True Suc.prems(5) lk by (auto simp: less_Suc_eq)
    have b: "\<forall>w < k. cl_lru_counter l < cl_lru_counter (cs ! i ! w)"
      using True Suc.prems(5) by force
    show ?thesis
      using Suc.hyps(1)[OF d rec _ _ _ a b] kn lk by simp
  next
    case False
    with Suc.prems(1) l have rec: "lru_loop cs i lw ml [Suc k ..< n] = Inr v"
      by (simp add: upt)
    have a: "\<forall>w < Suc k. ml \<le> cl_lru_counter (cs ! i ! w)"
      using False Suc.prems(5) lk by (auto simp: less_Suc_eq)
    show ?thesis
      using Suc.hyps(1)[OF d rec _ _ Suc.prems(4) a Suc.prems(6)] kn Suc.prems(2) by simp
  qed
qed


section \<open>Cache: victim selection on a miss\<close>

lemma line_at_set_line_same:
  "i < length cs \<Longrightarrow> w < length (cs ! i) \<Longrightarrow> line_at (set_line cs i w l) i w = Inr l"
  by (simp add: line_at_def set_line_def)

lemma set_line_set_line:
  "set_line (set_line cs i w a) i w b = set_line cs i w b"
  by (cases "i < length cs") (simp_all add: set_line_def list_update_beyond)

lemma CacheLine_overwrite:
  "(l :: CacheLine)\<lparr>cl_valid := a, cl_tag := t, cl_dirty := d, cl_lru_counter := g\<rparr> =
     \<lparr>cl_valid = a, cl_dirty = d, cl_tag = t, cl_lru_counter = g\<rparr>"
  by (cases l) simp

lemma find_victim_spec:
  assumes "0 < c_associativity c" and "find_victim c i = Inr v"
  shows "v < nat (c_associativity c) \<and> i < length (c_cache c) \<and> v < length (c_cache c ! i) \<and>
     (if \<exists>w < nat (c_associativity c). \<not> cl_valid (c_cache c ! i ! w)
      then \<not> cl_valid (c_cache c ! i ! v) \<and> (\<forall>w < v. cl_valid (c_cache c ! i ! w))
      else (\<forall>w < nat (c_associativity c).
              cl_lru_counter (c_cache c ! i ! v) \<le> cl_lru_counter (c_cache c ! i ! w)) \<and>
           (\<forall>w < v. cl_lru_counter (c_cache c ! i ! v) < cl_lru_counter (c_cache c ! i ! w)))"
proof -
  let ?n = "nat (c_associativity c)"
  let ?cs = "c_cache c"
  from assms(1) have n: "0 < ?n" by simp
  from assms(2) obtain r where r: "find_invalid_loop ?cs i [0 ..< ?n] = Inr r"
    by (auto simp: find_victim_def split: sum.splits)
  show ?thesis
  proof (cases r)
    case (Some u)
    with r assms(2) have "u = v" by (simp add: find_victim_def)
    with Some r have "find_invalid_loop ?cs i [0 ..< ?n] = Inr (Some v)" by simp
    from find_invalid_loop_upt_Some[OF this]
    have f: "v < ?n" "i < length ?cs" "v < length (?cs ! i)" "\<not> cl_valid (?cs ! i ! v)"
      "\<forall>w. w < v \<longrightarrow> cl_valid (?cs ! i ! w)" by simp_all
    then have "\<exists>w < ?n. \<not> cl_valid (?cs ! i ! w)" by blast
    with f show ?thesis by simp
  next
    case None
    with r have none: "find_invalid_loop ?cs i [0 ..< ?n] = Inr None" by simp
    have allv: "i < length ?cs \<and> w < length (?cs ! i) \<and> cl_valid (?cs ! i ! w)" if "w < ?n" for w
      using find_invalid_loop_None[OF none, of w] that by simp
    then have noinv: "\<not> (\<exists>w < ?n. \<not> cl_valid (?cs ! i ! w))" by blast
    from allv[of 0] n have l0: "line_at ?cs i 0 = Inr (?cs ! i ! 0)"
      by (simp add: line_at_def)
    with none assms(2)
    have lru: "lru_loop ?cs i 0 (cl_lru_counter (?cs ! i ! 0)) [1 ..< ?n] = Inr v"
      by (simp add: find_victim_def)
    have "v < ?n \<and> (\<forall>w < ?n. cl_lru_counter (?cs ! i ! v) \<le> cl_lru_counter (?cs ! i ! w)) \<and>
       (\<forall>w < v. cl_lru_counter (?cs ! i ! v) < cl_lru_counter (?cs ! i ! w))"
      by (rule lru_loop_upt[OF lru]) (use n in auto)
    moreover from this allv[of v] have "i < length ?cs" "v < length (?cs ! i)" by simp_all
    ultimately show ?thesis using noinv by simp
  qed
qed

lemma access_miss_result:
  assumes "access_miss c i tag ty vb = Inr c'"
  shows "\<exists>v. find_victim c i = Inr v \<and> i < length (c_cache c) \<and> v < length (c_cache c ! i) \<and>
     c_cache c' = set_line (c_cache c) i v
         \<lparr>cl_valid = True, cl_dirty = (ty = WRITE), cl_tag = tag,
           cl_lru_counter = c_global_lru_counter c + 1\<rparr> \<and>
     c_global_lru_counter c' = c_global_lru_counter c + 1"
proof -
  have fv: "find_victim (c\<lparr>c_read_misses := a\<rparr>) i = find_victim c i"
     "find_victim (c\<lparr>c_write_misses := a\<rparr>) i = find_victim c i" for a
    by (simp_all add: find_victim_def split: sum.splits option.splits)
  from assms obtain v where v: "find_victim c i = Inr v"
    by (auto simp: access_miss_def Let_def fv split: sum.splits if_splits)
  from assms v obtain vl where vl: "line_at (c_cache c) i v = Inr vl"
    by (auto simp: access_miss_def Let_def fv split: sum.splits if_splits)
  then have rng: "i < length (c_cache c)" "v < length (c_cache c ! i)"
    by (simp_all add: line_at_Inr)
  from assms v vl rng have
    "c_cache c' = set_line (c_cache c) i v
         \<lparr>cl_valid = True, cl_dirty = (ty = WRITE), cl_tag = tag,
           cl_lru_counter = c_global_lru_counter c + 1\<rparr> \<and>
     c_global_lru_counter c' = c_global_lru_counter c + 1"
    by (auto simp: access_miss_def Let_def fv update_lru_def line_at_set_line_same
        set_line_set_line CacheLine_overwrite split: if_splits)
  with v rng show ?thesis by blast
qed

text \<open>
  C7. On every access that misses (the call returns \<open>False\<close>), the way that
  receives the new line is the way \<open>_find_victim\<close> returns, and that way is the
  lowest-indexed invalid way of the target set if the set has an invalid way,
  otherwise a way of minimum \<open>lru_counter\<close> with every lower-indexed way having a
  strictly larger counter (ties go to the lowest index). The set's ways are the
  indices below \<open>associativity\<close>, which the constructor keeps positive.
\<close>

theorem access_miss_victim:
  assumes "0 < c_associativity c"
    and "access c address access_type verbose = Inr (False, c')"
  shows "\<exists>tag index offset v.
      decompose_address c address = Inr (tag, index, offset) \<and>
      find_line c (nat index) tag = Inr None \<and>
      find_victim c (nat index) = Inr v \<and> v < nat (c_associativity c) \<and>
      (if \<exists>w < nat (c_associativity c). \<not> cl_valid (c_cache c ! nat index ! w)
       then \<not> cl_valid (c_cache c ! nat index ! v) \<and>
            (\<forall>w < v. cl_valid (c_cache c ! nat index ! w))
       else (\<forall>w < nat (c_associativity c).
               cl_lru_counter (c_cache c ! nat index ! v)
                 \<le> cl_lru_counter (c_cache c ! nat index ! w)) \<and>
            (\<forall>w < v. cl_lru_counter (c_cache c ! nat index ! v)
                 < cl_lru_counter (c_cache c ! nat index ! w))) \<and>
      c_cache c' = set_line (c_cache c) (nat index) v
         \<lparr>cl_valid = True, cl_dirty = (access_type = WRITE), cl_tag = tag,
           cl_lru_counter = c_global_lru_counter c + 1\<rparr>"
proof -
  from assms(2) obtain tag index offset where
    d: "decompose_address c address = Inr (tag, index, offset)"
    by (auto simp: access_def split: sum.splits)
  from assms(2) d have fl: "find_line c (nat index) tag = Inr None"
    by (auto simp: access_def split: sum.splits option.splits)
  from assms(2) d fl have "access_miss c (nat index) tag access_type verbose = Inr c'"
    by (auto simp: access_def split: sum.splits)
  from access_miss_result[OF this] obtain v where
    v: "find_victim c (nat index) = Inr v"
    and upd: "c_cache c' = set_line (c_cache c) (nat index) v
         \<lparr>cl_valid = True, cl_dirty = (access_type = WRITE), cl_tag = tag,
           cl_lru_counter = c_global_lru_counter c + 1\<rparr>"
    by blast
  from find_victim_spec[OF assms(1) v] d fl v upd show ?thesis by simp
qed

theorem access_miss_victim_witness:
  "0 < c_associativity cache_full \<and>
   access cache_full 0x1C0 READ True = Inr (False, cache_after) \<and>
   find_victim cache_full 0 = Inr 1 \<and>
   (\<exists>tag index offset v.
      decompose_address cache_full 0x1C0 = Inr (tag, index, offset) \<and>
      find_line cache_full (nat index) tag = Inr None \<and>
      find_victim cache_full (nat index) = Inr v \<and> v < nat (c_associativity cache_full) \<and>
      (if \<exists>w < nat (c_associativity cache_full). \<not> cl_valid (c_cache cache_full ! nat index ! w)
       then \<not> cl_valid (c_cache cache_full ! nat index ! v) \<and>
            (\<forall>w < v. cl_valid (c_cache cache_full ! nat index ! w))
       else (\<forall>w < nat (c_associativity cache_full).
               cl_lru_counter (c_cache cache_full ! nat index ! v)
                 \<le> cl_lru_counter (c_cache cache_full ! nat index ! w)) \<and>
            (\<forall>w < v. cl_lru_counter (c_cache cache_full ! nat index ! v)
                 < cl_lru_counter (c_cache cache_full ! nat index ! w))) \<and>
      c_cache cache_after = set_line (c_cache cache_full) (nat index) v
         \<lparr>cl_valid = True, cl_dirty = (READ = WRITE), cl_tag = tag,
           cl_lru_counter = c_global_lru_counter cache_full + 1\<rparr>)"
proof -
  have h1: "0 < c_associativity cache_full" by (simp add: cache_full_def)
  have h2: "access cache_full 0x1C0 READ True = Inr (False, cache_after)"
    by (simp add: access_def cache_full_def cache_after_def decompose_address_def Let_def
        find_line_def line_at_def find_victim_def access_miss_def update_lru_def set_line_def
        upt_conv_Cons)
  have h3: "find_victim cache_full 0 = Inr 1"
    by (simp add: cache_full_def find_victim_def line_at_def upt_conv_Cons)
  from h1 h2 h3 access_miss_victim[OF h1 h2] show ?thesis by blast
qed


section \<open>Cache: the LRU counters\<close>

lemma concat_set_line:
  assumes "i < length cs" and "w < length (cs ! i)"
  shows "\<exists>A B. concat cs = A @ (cs ! i ! w) # B \<and> (\<forall>l. concat (set_line cs i w l) = A @ l # B)"
proof -
  let ?s = "cs ! i"
  let ?A = "concat (take i cs) @ take w ?s"
  let ?B = "drop (Suc w) ?s @ concat (drop (Suc i) cs)"
  have s: "?s = take w ?s @ (?s ! w) # drop (Suc w) ?s"
    using assms(2) by (rule id_take_nth_drop)
  have "cs = take i cs @ ?s # drop (Suc i) cs"
    using assms(1) by (rule id_take_nth_drop)
  then have "concat cs = concat (take i cs) @ ?s @ concat (drop (Suc i) cs)"
    by (metis concat.simps(2) concat_append)
  with s have 1: "concat cs = ?A @ (?s ! w) # ?B"
    by (metis append.assoc append_Cons)
  have 2: "concat (set_line cs i w l) = ?A @ l # ?B" for l
  proof -
    have "set_line cs i w l = take i cs @ (?s[w := l]) # drop (Suc i) cs"
      using assms(1) by (simp add: set_line_def upd_conv_take_nth_drop)
    moreover have "?s[w := l] = take w ?s @ l # drop (Suc w) ?s"
      using assms(2) by (rule upd_conv_take_nth_drop)
    ultimately show ?thesis by simp
  qed
  from 1 2 show ?thesis by blast
qed

lemma lru_inv_step:
  assumes inv: "lru_inv c"
    and i: "i < length (c_cache c)" and w: "w < length (c_cache c ! i)"
    and c': "c_cache c' = set_line (c_cache c) i w l"
    and g: "c_global_lru_counter c' = c_global_lru_counter c + 1"
    and l: "cl_valid l" "cl_lru_counter l = c_global_lru_counter c + 1"
  shows "lru_inv c'"
proof -
  from concat_set_line[OF i w] obtain A B where
    ab: "concat (c_cache c) = A @ (c_cache c ! i ! w) # B"
    and ab': "concat (c_cache c') = A @ l # B"
    using c' by auto
  let ?g = "c_global_lru_counter c"
  from inv ab have bA: "\<forall>x \<in> set A. cl_valid x \<longrightarrow> cl_lru_counter x \<le> ?g"
    and bB: "\<forall>x \<in> set B. cl_valid x \<longrightarrow> cl_lru_counter x \<le> ?g"
    by (auto simp: lru_inv_def valid_lines_def list_all_iff)
  from inv ab have dA: "distinct (filter (\<lambda>k. k \<noteq> 0) (map cl_lru_counter (filter cl_valid A)))"
    and dB: "distinct (filter (\<lambda>k. k \<noteq> 0) (map cl_lru_counter (filter cl_valid B)))"
    and dAB: "set (filter (\<lambda>k. k \<noteq> 0) (map cl_lru_counter (filter cl_valid A))) \<inter>
              set (filter (\<lambda>k. k \<noteq> 0) (map cl_lru_counter (filter cl_valid B))) = {}"
    by (auto simp: lru_inv_def valid_lines_def split: if_splits)
  have nA: "?g + 1 \<notin> set (map cl_lru_counter (filter cl_valid A))"
    using bA by auto
  have nB: "?g + 1 \<notin> set (map cl_lru_counter (filter cl_valid B))"
    using bB by auto
  have bound: "list_all (\<lambda>x. cl_lru_counter x \<le> c_global_lru_counter c') (valid_lines c')"
    using bA bB l g by (auto simp: valid_lines_def ab' list_all_iff)
  have dist: "distinct (filter (\<lambda>k. k \<noteq> 0) (map cl_lru_counter (valid_lines c')))"
    using dA dB dAB nA nB l by (auto simp: valid_lines_def ab')
  from bound dist show ?thesis by (simp add: lru_inv_def)
qed

lemma pos_step:
  assumes pos: "\<forall>x \<in> set (valid_lines c). 0 < cl_lru_counter x"
    and i: "i < length (c_cache c)" and w: "w < length (c_cache c ! i)"
    and c': "c_cache c' = set_line (c_cache c) i w l"
    and l: "0 < cl_lru_counter l"
  shows "\<forall>x \<in> set (valid_lines c'). 0 < cl_lru_counter x"
proof -
  from concat_set_line[OF i w] obtain A B where
    ab: "concat (c_cache c) = A @ (c_cache c ! i ! w) # B"
    and ab': "concat (c_cache c') = A @ l # B"
    using c' by auto
  from pos l show ?thesis by (auto simp: valid_lines_def ab ab')
qed

lemma find_line_loop_Some:
  "find_line_loop cs i tag ways = Inr (Some w) \<Longrightarrow>
     i < length cs \<and> w < length (cs ! i) \<and> cl_valid (cs ! i ! w) \<and> cl_tag (cs ! i ! w) = tag"
  by (induction ways) (auto simp: line_at_Inr split: sum.splits if_splits)

lemma access_hit_result:
  assumes "access_hit c i w ty = Inr c'"
  shows "i < length (c_cache c) \<and> w < length (c_cache c ! i) \<and>
     c_cache c' = set_line (c_cache c) i w
        ((c_cache c ! i ! w)\<lparr>cl_dirty := (ty = WRITE \<or> cl_dirty (c_cache c ! i ! w)),
                              cl_lru_counter := c_global_lru_counter c + 1\<rparr>) \<and>
     c_global_lru_counter c' = c_global_lru_counter c + 1"
proof (cases ty)
  case READ
  with assms show ?thesis
    by (auto simp: access_hit_def update_lru_def Let_def line_at_Inr split: sum.splits)
next
  case WRITE
  with assms obtain l where l: "line_at (c_cache c) i w = Inr l"
    by (auto simp: access_hit_def split: sum.splits)
  then have rng: "i < length (c_cache c)" "w < length (c_cache c ! i)" "l = c_cache c ! i ! w"
    by (simp_all add: line_at_Inr)
  with assms WRITE l show ?thesis
    by (auto simp: access_hit_def update_lru_def Let_def line_at_set_line_same set_line_set_line)
qed

text \<open>One access, hit or miss, rewrites one line and gives it the bumped counter.\<close>

lemma access_step:
  assumes "access c address ty vb = Inr (hit, c')"
  shows "\<exists>i w l. i < length (c_cache c) \<and> w < length (c_cache c ! i) \<and>
      c_cache c' = set_line (c_cache c) i w l \<and> cl_valid l \<and>
      cl_lru_counter l = c_global_lru_counter c + 1 \<and>
      c_global_lru_counter c' = c_global_lru_counter c + 1"
proof -
  from assms obtain tag index offset where
    d: "decompose_address c address = Inr (tag, index, offset)"
    by (auto simp: access_def split: sum.splits)
  from assms d obtain r where r: "find_line c (nat index) tag = Inr r"
    by (auto simp: access_def split: sum.splits)
  show ?thesis
  proof (cases r)
    case None
    with assms d r have "access_miss c (nat index) tag ty vb = Inr c'"
      by (auto simp: access_def split: sum.splits)
    from access_miss_result[OF this] show ?thesis by force
  next
    case (Some w)
    with assms d r have h: "access_hit c (nat index) w ty = Inr c'"
      by (auto simp: access_def split: sum.splits)
    from r Some have "cl_valid (c_cache c ! nat index ! w)"
      by (auto simp: find_line_def dest: find_line_loop_Some)
    with access_hit_result[OF h] show ?thesis
      by (intro exI[of _ "nat index"] exI[of _ w]) force
  qed
qed

lemma access_preserves_lru_inv:
  assumes "lru_inv c" and "access c address ty vb = Inr (hit, c')"
  shows "lru_inv c' \<and> c_global_lru_counter c' = c_global_lru_counter c + 1"
proof -
  from access_step[OF assms(2)] obtain i w l where
    s: "i < length (c_cache c)" "w < length (c_cache c ! i)"
      "c_cache c' = set_line (c_cache c) i w l" "cl_valid l"
      "cl_lru_counter l = c_global_lru_counter c + 1"
      "c_global_lru_counter c' = c_global_lru_counter c + 1" by blast
  from lru_inv_step[OF assms(1) s(1,2,3,6,4,5)] s(6) show ?thesis by simp
qed

lemma access_preserves_pos:
  assumes "0 \<le> c_global_lru_counter c" and "\<forall>x \<in> set (valid_lines c). 0 < cl_lru_counter x"
    and "access c address ty vb = Inr (hit, c')"
  shows "\<forall>x \<in> set (valid_lines c'). 0 < cl_lru_counter x"
proof -
  from access_step[OF assms(3)] obtain i w l where
    s: "i < length (c_cache c)" "w < length (c_cache c ! i)"
      "c_cache c' = set_line (c_cache c) i w l" "cl_valid l"
      "cl_lru_counter l = c_global_lru_counter c + 1" by blast
  from s(5) assms(1) have "0 < cl_lru_counter l" by simp
  from pos_step[OF assms(2) s(1,2,3) this] show ?thesis .
qed

lemma Cache_init_valid_lines:
  assumes "Cache_init sz bs a ab = Inr c"
  shows "valid_lines c = [] \<and> c_global_lru_counter c = 0"
proof -
  from assms have "c_cache c = replicate (nat (sz div bs div a)) (replicate (nat a) CacheLine_default)"
    and g: "c_global_lru_counter c = 0"
    by (auto simp: Cache_init_def Let_def split: if_splits)
  then have "\<forall>l \<in> set (concat (c_cache c)). \<not> cl_valid l"
    by (auto simp: CacheLine_default_def)
  then have "valid_lines c = []" by (simp add: valid_lines_def)
  with g show ?thesis by simp
qed

lemma run_accesses_inv:
  "run_accesses c ops = Inr c' \<Longrightarrow> lru_inv c \<Longrightarrow> 0 \<le> c_global_lru_counter c \<Longrightarrow>
   \<forall>x \<in> set (valid_lines c). 0 < cl_lru_counter x \<Longrightarrow>
     lru_inv c' \<and> c_global_lru_counter c' = c_global_lru_counter c + int (length ops) \<and>
     (\<forall>x \<in> set (valid_lines c'). 0 < cl_lru_counter x)"
proof (induction ops arbitrary: c)
  case Nil
  then show ?case by simp
next
  case (Cons op ops)
  obtain address ty vb where op: "op = (address, ty, vb)" by (cases op)
  from Cons.prems(1) op obtain hit c1 where a: "access c address ty vb = Inr (hit, c1)"
    and r: "run_accesses c1 ops = Inr c'"
    by (auto split: sum.splits)
  from access_preserves_lru_inv[OF Cons.prems(2) a]
  have 1: "lru_inv c1" and 2: "c_global_lru_counter c1 = c_global_lru_counter c + 1" by simp_all
  from access_preserves_pos[OF Cons.prems(3,4) a]
  have 3: "\<forall>x \<in> set (valid_lines c1). 0 < cl_lru_counter x" .
  from 2 Cons.prems(3) have 4: "0 \<le> c_global_lru_counter c1" by simp
  from Cons.IH[OF r 1 4 3] 2 show ?case by simp
qed

text \<open>
  C10. For a cache built by the constructor and any sequence of accesses on it:
  the global LRU counter equals the number of accesses made (one increment per
  access), every valid line's counter is at most the global counter and the
  nonzero counters of valid lines are pairwise different (\<open>lru_inv\<close>); every
  valid line's counter is positive, so the counters of all valid lines are
  pairwise different and the minimum among them is unique. The next access
  again adds exactly one and keeps the invariant.
\<close>

theorem cache_lru_invariant:
  assumes "Cache_init sz block_size associativity address_bits = Inr c0"
    and "run_accesses c0 ops = Inr c"
  shows "c_global_lru_counter c = int (length ops) \<and> lru_inv c \<and>
     (\<forall>l \<in> set (valid_lines c). 0 < cl_lru_counter l) \<and>
     distinct (map cl_lru_counter (valid_lines c)) \<and>
     (\<forall>address access_type verbose hit c'.
        access c address access_type verbose = Inr (hit, c') \<longrightarrow>
        c_global_lru_counter c' = c_global_lru_counter c + 1 \<and> lru_inv c')"
proof -
  from Cache_init_valid_lines[OF assms(1)]
  have v: "valid_lines c0 = []" and g: "c_global_lru_counter c0 = 0" by simp_all
  from v have i: "lru_inv c0" by (simp add: lru_inv_def)
  from run_accesses_inv[OF assms(2) i] v g
  have r: "lru_inv c" "c_global_lru_counter c = int (length ops)"
    "\<forall>x \<in> set (valid_lines c). 0 < cl_lru_counter x" by simp_all
  from r(3) have "filter (\<lambda>k. k \<noteq> 0) (map cl_lru_counter (valid_lines c))
       = map cl_lru_counter (valid_lines c)"
    by (auto simp: filter_id_conv)
  with r(1) have d: "distinct (map cl_lru_counter (valid_lines c))"
    by (simp add: lru_inv_def)
  from r d access_preserves_lru_inv[OF r(1)] show ?thesis by blast
qed

lemma int_log2_64: "int_log2 64 = 6"
  by (simp add: int_log2_def log2_floor.simps)

lemma int_log2_1: "int_log2 1 = 0"
  by (simp add: int_log2_def log2_floor.simps)

theorem cache_lru_invariant_witness:
  "Cache_init 128 64 2 32 = Inr cache_fresh \<and>
   run_accesses cache_fresh
     [(0x40, READ, False), (0x80, WRITE, True), (0x40, READ, False), (0xC0, READ, True)]
     = Inr cache_ran \<and>
   c_global_lru_counter cache_ran = 4 \<and> lru_inv cache_ran \<and>
   distinct (map cl_lru_counter (valid_lines cache_ran)) \<and>
   access cache_ran 0x40 WRITE False = Inr (True, cache_next) \<and>
   c_global_lru_counter cache_next = 5 \<and> lru_inv cache_next"
proof -
  have h1: "Cache_init 128 64 2 32 = Inr cache_fresh"
    by (simp add: Cache_init_def is_power_of_2_def Let_def cache_fresh_def int_log2_64
        int_log2_1 numeral_2_eq_2)
  have h2: "run_accesses cache_fresh
     [(0x40, READ, False), (0x80, WRITE, True), (0x40, READ, False), (0xC0, READ, True)]
     = Inr cache_ran"
    by (simp add: access_def cache_fresh_def cache_ran_def CacheLine_default_def
        decompose_address_def Let_def find_line_def line_at_def find_victim_def
        access_miss_def access_hit_def update_lru_def set_line_def upt_conv_Cons)
  have h3: "access cache_ran 0x40 WRITE False = Inr (True, cache_next)"
    by (simp add: access_def cache_ran_def cache_next_def decompose_address_def Let_def
        find_line_def line_at_def access_hit_def update_lru_def set_line_def upt_conv_Cons)
  note t = cache_lru_invariant[OF h1 h2]
  from t have c1: "c_global_lru_counter cache_ran = 4" "lru_inv cache_ran"
    "distinct (map cl_lru_counter (valid_lines cache_ran))" by simp_all
  from t h3 have c2: "c_global_lru_counter cache_next = c_global_lru_counter cache_ran + 1"
    "lru_inv cache_next" by blast+
  from c1(1) c2(1) have c3: "c_global_lru_counter cache_next = 5" by simp
  from h1 h2 c1 h3 c3 c2(2) show ?thesis by (intro conjI)
qed


section \<open>TLB: a write that hits a non-writable entry\<close>

lemma entry_at_Inr: "entry_at es i = Inr e \<longleftrightarrow> i < length es \<and> e = es ! i"
  by (auto simp: entry_at_def)

lemma find_entry_loop_Some:
  "find_entry_loop es vpn ps ws = Inr (Some i) \<Longrightarrow>
     i < length es \<and> e_valid (es ! i) \<and> e_vpn (es ! i) = vpn \<and> e_page_size (es ! i) = ps"
  by (induction ws) (auto simp: entry_at_Inr split: sum.splits if_splits)

lemma TLB_find_entry_page_table [simp]:
  "TLB_find_entry (s\<lparr>t_page_table := pt\<rparr>) vpn ps = TLB_find_entry s vpn ps"
  by (simp add: TLB_find_entry_def)

lemma TLB_translate_write_protect:
  assumes "TLB_find_entry s (extract_vpn va ps) ps = Inr (Some i)"
    and "\<not> e_writable (t_entries s ! i)"
  shows "TLB_translate s va ps True = Inr (None, s\<lparr>t_hits := t_hits s + 1\<rparr>)"
proof -
  from assms(1) have "i < length (t_entries s)"
    by (auto simp: TLB_find_entry_def dest: find_entry_loop_Some)
  with assms show ?thesis
    by (simp add: TLB_translate_def TLB_translate_hit_def Let_def entry_at_def)
qed

text \<open>
  C9. If \<open>(vpn, page_size)\<close> of the address matches a valid entry (the one
  \<open>_find_entry\<close> returns) and that entry is not writable, a write translation
  returns \<open>None\<close>, adds one to \<open>hits\<close>, leaves \<open>misses\<close> alone and changes no
  entry: the entry list and the global LRU counter are what they were, so the
  matched entry's \<open>lru_counter\<close>, \<open>accessed\<close> and \<open>dirty\<close> are not updated and
  nothing is installed or evicted.
\<close>

theorem TLB_write_fault_counts_hit_only:
  assumes "TLB_find_entry s (extract_vpn va page_size) page_size = Inr (Some i)"
    and "\<not> e_writable (t_entries s ! i)"
  shows "\<exists>s'. TLB_translate s va page_size True = Inr (None, s') \<and>
     t_hits s' = t_hits s + 1 \<and> t_misses s' = t_misses s \<and>
     t_entries s' = t_entries s \<and>
     t_global_lru_counter s' = t_global_lru_counter s \<and>
     e_lru_counter (t_entries s' ! i) = e_lru_counter (t_entries s ! i) \<and>
     e_accessed (t_entries s' ! i) = e_accessed (t_entries s ! i) \<and>
     e_dirty (t_entries s' ! i) = e_dirty (t_entries s ! i)"
  using TLB_translate_write_protect[OF assms] by simp


theorem TLB_write_fault_counts_hit_only_witness:
  "TLB_find_entry tlb_ro (extract_vpn 0x401234 KB_4) KB_4 = Inr (Some 0) \<and>
   \<not> e_writable (t_entries tlb_ro ! 0) \<and>
   (\<exists>s'. TLB_translate tlb_ro 0x401234 KB_4 True = Inr (None, s') \<and>
     t_hits s' = 1 \<and> t_misses s' = 1 \<and> t_entries s' = t_entries tlb_ro \<and>
     t_global_lru_counter s' = 1)"
proof -
  have h1: "TLB_find_entry tlb_ro (extract_vpn 0x401234 KB_4) KB_4 = Inr (Some 0)"
    by (simp add: TLB_find_entry_def tlb_ro_def extract_vpn_def entry_at_def upt_conv_Cons)
  have h2: "\<not> e_writable (t_entries tlb_ro ! 0)"
    by (simp add: tlb_ro_def)
  have v: "t_hits tlb_ro = 0" "t_misses tlb_ro = 1" "t_global_lru_counter tlb_ro = 1"
    by (simp_all add: tlb_ro_def)
  from TLB_write_fault_counts_hit_only[OF h1 h2] v h1 h2 show ?thesis by auto
qed

text \<open>
  C3, as the code has it. On such a write the method returns \<open>None\<close>, and that
  is also what it returns for a page fault after a TLB miss: the return value
  does not tell the two apart. The state afterwards does: here it is the old
  state with \<open>hits\<close> incremented by one, after a page fault it is the old
  state with \<open>misses\<close> incremented by one. The page table is not consulted:
  whatever the dictionary holds, the result is \<open>None\<close> and the state changes
  in \<open>hits\<close> only. (What the method prints is not part of the statement.)
\<close>

theorem TLB_write_fault_returns_None_without_walk:
  assumes "TLB_find_entry s (extract_vpn va page_size) page_size = Inr (Some i)"
    and "\<not> e_writable (t_entries s ! i)"
  shows "TLB_translate s va page_size True = Inr (None, s\<lparr>t_hits := t_hits s + 1\<rparr>) \<and>
     (\<forall>pt. TLB_translate (s\<lparr>t_page_table := pt\<rparr>) va page_size True
            = Inr (None, s\<lparr>t_page_table := pt, t_hits := t_hits s + 1\<rparr>)) \<and>
     (\<forall>s2 va2 ps2 w2.
        TLB_find_entry s2 (extract_vpn va2 ps2) ps2 = Inr None \<and>
        TLB_page_walk s2 (extract_vpn va2 ps2) ps2 = None \<longrightarrow>
        TLB_translate s2 va2 ps2 w2 = Inr (None, s2\<lparr>t_misses := t_misses s2 + 1\<rparr>) \<and>
        map_sum id fst (TLB_translate s2 va2 ps2 w2)
          = map_sum id fst (TLB_translate s va page_size True))"
proof -
  have 0: "TLB_translate s va page_size True = Inr (None, s\<lparr>t_hits := t_hits s + 1\<rparr>)"
    by (rule TLB_translate_write_protect[OF assms])
  have 1: "TLB_translate (s\<lparr>t_page_table := pt\<rparr>) va page_size True
            = Inr (None, s\<lparr>t_page_table := pt, t_hits := t_hits s + 1\<rparr>)" for pt
    using TLB_translate_write_protect[of "s\<lparr>t_page_table := pt\<rparr>" va page_size i] assms
    by simp
  have 2: "TLB_translate s2 va2 ps2 w2 = Inr (None, s2\<lparr>t_misses := t_misses s2 + 1\<rparr>)"
    if "TLB_find_entry s2 (extract_vpn va2 ps2) ps2 = Inr None"
      "TLB_page_walk s2 (extract_vpn va2 ps2) ps2 = None" for s2 va2 ps2 w2
    using that
    by (simp add: TLB_translate_def TLB_translate_miss_def Let_def TLB_page_walk_def)
  have 3: "map_sum id fst (TLB_translate s2 va2 ps2 w2)
          = map_sum id fst (TLB_translate s va page_size True)"
    if "TLB_find_entry s2 (extract_vpn va2 ps2) ps2 = Inr None"
      "TLB_page_walk s2 (extract_vpn va2 ps2) ps2 = None" for s2 va2 ps2 w2
    using 2[OF that, of w2] 0 by simp
  from 0 1 2 3 show ?thesis by blast
qed

theorem TLB_write_fault_returns_None_without_walk_witness:
  "TLB_find_entry tlb_ro (extract_vpn 0x401234 KB_4) KB_4 = Inr (Some 0) \<and>
   \<not> e_writable (t_entries tlb_ro ! 0) \<and>
   TLB_translate tlb_ro 0x401234 KB_4 True
     = Inr (None, tlb_ro\<lparr>t_hits := t_hits tlb_ro + 1\<rparr>) \<and>
   TLB_translate (tlb_ro\<lparr>t_page_table := Map.empty\<rparr>) 0x401234 KB_4 True
     = Inr (None, tlb_ro\<lparr>t_page_table := Map.empty, t_hits := t_hits tlb_ro + 1\<rparr>) \<and>
   TLB_find_entry tlb_ro (extract_vpn 0x999000 KB_4) KB_4 = Inr None \<and>
   TLB_page_walk tlb_ro (extract_vpn 0x999000 KB_4) KB_4 = None \<and>
   TLB_translate tlb_ro 0x999000 KB_4 False
     = Inr (None, tlb_ro\<lparr>t_misses := t_misses tlb_ro + 1\<rparr>) \<and>
   map_sum id fst (TLB_translate tlb_ro 0x999000 KB_4 False)
     = map_sum id fst (TLB_translate tlb_ro 0x401234 KB_4 True)"
proof -
  have h1: "TLB_find_entry tlb_ro (extract_vpn 0x401234 KB_4) KB_4 = Inr (Some 0)"
    by (simp add: TLB_find_entry_def tlb_ro_def extract_vpn_def entry_at_def upt_conv_Cons)
  have h2: "\<not> e_writable (t_entries tlb_ro ! 0)"
    by (simp add: tlb_ro_def)
  have h3: "TLB_find_entry tlb_ro (extract_vpn 0x999000 KB_4) KB_4 = Inr None"
    by (simp add: TLB_find_entry_def tlb_ro_def extract_vpn_def entry_at_def upt_conv_Cons
        TLBEntry_default_def)
  have h4: "TLB_page_walk tlb_ro (extract_vpn 0x999000 KB_4) KB_4 = None"
    by (simp add: TLB_page_walk_def tlb_ro_def extract_vpn_def)
  note t = TLB_write_fault_returns_None_without_walk[OF h1 h2]
  from t have c0: "TLB_translate tlb_ro 0x401234 KB_4 True
     = Inr (None, tlb_ro\<lparr>t_hits := t_hits tlb_ro + 1\<rparr>)"
    by (rule conjunct1)
  from t have c1: "TLB_translate (tlb_ro\<lparr>t_page_table := Map.empty\<rparr>) 0x401234 KB_4 True
     = Inr (None, tlb_ro\<lparr>t_page_table := Map.empty, t_hits := t_hits tlb_ro + 1\<rparr>)"
    by blast
  from t h3 h4 have c2: "TLB_translate tlb_ro 0x999000 KB_4 False
     = Inr (None, tlb_ro\<lparr>t_misses := t_misses tlb_ro + 1\<rparr>)"
    by blast
  from t h3 h4 have c3: "map_sum id fst (TLB_translate tlb_ro 0x999000 KB_4 False)
     = map_sum id fst (TLB_translate tlb_ro 0x401234 KB_4 True)"
    by blast
  from h1 h2 c0 c1 h3 h4 c2 c3 show ?thesis by (intro conjI)
qed

text \<open>
  C3, as the claim states it, fails: in the state \<open>tlb_ro\<close> a write to
  \<open>0x401234\<close> hits the read-only entry 0, a write to \<open>0x999000\<close> misses and
  finds no mapping, and both calls return \<open>None\<close>.
\<close>

theorem TLB_write_fault_same_as_page_fault:
  "TLB_find_entry tlb_ro (extract_vpn 0x401234 KB_4) KB_4 = Inr (Some 0) \<and>
   \<not> e_writable (t_entries tlb_ro ! 0) \<and>
   TLB_find_entry tlb_ro (extract_vpn 0x999000 KB_4) KB_4 = Inr None \<and>
   TLB_page_walk tlb_ro (extract_vpn 0x999000 KB_4) KB_4 = None \<and>
   map_sum id fst (TLB_translate tlb_ro 0x401234 KB_4 True) = Inr None \<and>
   map_sum id fst (TLB_translate tlb_ro 0x999000 KB_4 True) = Inr None"
  by (simp add: TLB_translate_def TLB_translate_hit_def TLB_translate_miss_def
      TLB_page_walk_def TLB_find_entry_def tlb_ro_def extract_vpn_def extract_offset_def
      entry_at_def upt_conv_Cons TLBEntry_default_def Let_def)


section \<open>TLB: the entry installed after a miss\<close>

lemma victim_invalid_loop_total:
  "n \<le> length es \<Longrightarrow> \<exists>r. victim_invalid_loop es [k ..< n] = Inr r \<and> (\<forall>i. r = Some i \<longrightarrow> i < n)"
proof (induction "n - k" arbitrary: k)
  case 0
  then show ?case by simp
next
  case (Suc d)
  then have kn: "k < n" by simp
  then have upt: "[k ..< n] = k # [Suc k ..< n]" by (simp add: upt_conv_Cons)
  from Suc.hyps have d: "d = n - Suc k" by simp
  from Suc.hyps(1)[OF d Suc.prems] kn Suc.prems show ?case
    by (auto simp: upt entry_at_def)
qed

lemma victim_lru_loop_total:
  "n \<le> length es \<Longrightarrow> lw < n \<Longrightarrow> \<exists>v. victim_lru_loop es lw ml [k ..< n] = Inr v \<and> v < n"
proof (induction "n - k" arbitrary: k lw ml)
  case 0
  then show ?case by simp
next
  case (Suc d)
  then have kn: "k < n" by simp
  then have upt: "[k ..< n] = k # [Suc k ..< n]" by (simp add: upt_conv_Cons)
  from Suc.hyps have d: "d = n - Suc k" by simp
  from Suc.hyps(1)[OF d Suc.prems(1) kn] Suc.hyps(1)[OF d Suc.prems(1) Suc.prems(2)]
    kn Suc.prems show ?case
    by (auto simp: upt entry_at_def)
qed

lemma TLB_find_victim_total:
  assumes "0 < t_num_entries s" and "nat (t_num_entries s) \<le> length (t_entries s)"
  shows "\<exists>v. TLB_find_victim s = Inr v \<and> v < length (t_entries s)"
proof -
  let ?n = "nat (t_num_entries s)"
  from assms(1) have n: "0 < ?n" by simp
  from victim_invalid_loop_total[OF assms(2), of 0] obtain r where
    r: "victim_invalid_loop (t_entries s) [0 ..< ?n] = Inr r" "\<forall>i. r = Some i \<longrightarrow> i < ?n"
    by blast
  show ?thesis
  proof (cases r)
    case (Some i)
    with r assms(2) show ?thesis by (simp add: TLB_find_victim_def)
  next
    case None
    from victim_lru_loop_total[OF assms(2) n, of "e_lru_counter (t_entries s ! 0)" 1]
    obtain v where "victim_lru_loop (t_entries s) 0 (e_lru_counter (t_entries s ! 0)) [1 ..< ?n] = Inr v"
      "v < ?n" by blast
    moreover from n assms(2) have "0 < length (t_entries s)" by linarith
    ultimately show ?thesis using None r assms(2)
      by (auto simp: TLB_find_victim_def entry_at_def)
  qed
qed

lemma TLB_find_victim_misses [simp]:
  "TLB_find_victim (s\<lparr>t_misses := m\<rparr>) = TLB_find_victim s"
  by (simp add: TLB_find_victim_def split: sum.splits option.splits)

lemma TLB_translate_miss_result:
  assumes wf: "0 < t_num_entries s" "nat (t_num_entries s) \<le> length (t_entries s)"
    and miss: "TLB_find_entry s (extract_vpn va page_size) page_size = Inr None"
    and walk: "TLB_page_walk s (extract_vpn va page_size) page_size = Some ppn"
  shows "\<exists>v. TLB_find_victim s = Inr v \<and> v < length (t_entries s) \<and>
     TLB_translate s va page_size is_write =
       Inr (Some (construct_pa ppn (extract_offset va page_size) page_size),
            s\<lparr>t_misses := t_misses s + 1,
              t_global_lru_counter := t_global_lru_counter s + 1,
              t_entries := (t_entries s)[v :=
                \<lparr>e_valid = True, e_vpn = extract_vpn va page_size, e_ppn = ppn,
                 e_page_size = page_size, e_readable = True, e_writable = True,
                 e_executable = False, e_dirty = is_write, e_accessed = True,
                 e_global_page = False,
                 e_lru_counter = t_global_lru_counter s + 1\<rparr>]\<rparr>)"
proof -
  from TLB_find_victim_total[OF wf] obtain v where
    v: "TLB_find_victim s = Inr v" "v < length (t_entries s)" by blast
  have "TLB_translate s va page_size is_write =
       Inr (Some (construct_pa ppn (extract_offset va page_size) page_size),
            s\<lparr>t_misses := t_misses s + 1,
              t_global_lru_counter := t_global_lru_counter s + 1,
              t_entries := (t_entries s)[v :=
                \<lparr>e_valid = True, e_vpn = extract_vpn va page_size, e_ppn = ppn,
                 e_page_size = page_size, e_readable = True, e_writable = True,
                 e_executable = False, e_dirty = is_write, e_accessed = True,
                 e_global_page = False,
                 e_lru_counter = t_global_lru_counter s + 1\<rparr>]\<rparr>)"
    using miss walk v
    by (simp add: TLB_translate_def TLB_translate_miss_def Let_def TLB_page_walk_def
        TLB_update_lru_def entry_at_def)
  with v show ?thesis by simp
qed

text \<open>
  C1, as the code has it. In a TLB with at least one entry slot, a translation
  that misses and whose page walk finds \<open>ppn\<close> returns the composed physical
  address and overwrites the victim slot with an entry whose permissions are
  the constants readable, writable, not executable (with \<open>accessed\<close> set and
  \<open>dirty\<close> equal to \<open>is_write\<close>). \<open>install_mapping\<close> stores the physical page
  number only, whatever permissions it is given.
\<close>

theorem TLB_translate_miss_installs:
  assumes wf: "0 < t_num_entries s" "nat (t_num_entries s) \<le> length (t_entries s)"
    and miss: "TLB_find_entry s (extract_vpn va page_size) page_size = Inr None"
    and walk: "TLB_page_walk s (extract_vpn va page_size) page_size = Some ppn"
  shows "\<exists>v. TLB_find_victim s = Inr v \<and> v < length (t_entries s) \<and>
     TLB_translate s va page_size is_write =
       Inr (Some (construct_pa ppn (extract_offset va page_size) page_size),
            s\<lparr>t_misses := t_misses s + 1,
              t_global_lru_counter := t_global_lru_counter s + 1,
              t_entries := (t_entries s)[v :=
                \<lparr>e_valid = True, e_vpn = extract_vpn va page_size, e_ppn = ppn,
                 e_page_size = page_size, e_readable = True, e_writable = True,
                 e_executable = False, e_dirty = is_write, e_accessed = True,
                 e_global_page = False,
                 e_lru_counter = t_global_lru_counter s + 1\<rparr>]\<rparr>) \<and>
     (\<forall>s0 va0 pa0 r w x.
        TLB_install_mapping s0 va0 pa0 page_size r w x =
        s0\<lparr>t_page_table := (t_page_table s0)
               ((extract_vpn va0 page_size, page_size) \<mapsto> extract_vpn pa0 page_size)\<rparr>)"
  using TLB_translate_miss_result[OF assms, of is_write]
  by (simp add: TLB_install_mapping_def Let_def)

theorem TLB_translate_miss_installs_witness:
  "0 < t_num_entries tlb_mapped \<and>
   nat (t_num_entries tlb_mapped) \<le> length (t_entries tlb_mapped) \<and>
   TLB_find_entry tlb_mapped (extract_vpn 0x401234 KB_4) KB_4 = Inr None \<and>
   TLB_page_walk tlb_mapped (extract_vpn 0x401234 KB_4) KB_4 = Some 0x12345 \<and>
   (\<exists>v. TLB_find_victim tlb_mapped = Inr v \<and>
     TLB_translate tlb_mapped 0x401234 KB_4 False =
       Inr (Some (construct_pa 0x12345 (extract_offset 0x401234 KB_4) KB_4),
            tlb_mapped\<lparr>t_misses := t_misses tlb_mapped + 1,
              t_global_lru_counter := t_global_lru_counter tlb_mapped + 1,
              t_entries := (t_entries tlb_mapped)[v :=
                \<lparr>e_valid = True, e_vpn = extract_vpn 0x401234 KB_4, e_ppn = 0x12345,
                 e_page_size = KB_4, e_readable = True, e_writable = True,
                 e_executable = False, e_dirty = False, e_accessed = True,
                 e_global_page = False,
                 e_lru_counter = t_global_lru_counter tlb_mapped + 1\<rparr>]\<rparr>))"
proof -
  have h1: "0 < t_num_entries tlb_mapped" by (simp add: tlb_mapped_def)
  have h2: "nat (t_num_entries tlb_mapped) \<le> length (t_entries tlb_mapped)"
    by (simp add: tlb_mapped_def)
  have h3: "TLB_find_entry tlb_mapped (extract_vpn 0x401234 KB_4) KB_4 = Inr None"
    by (simp add: TLB_find_entry_def tlb_mapped_def extract_vpn_def entry_at_def
        upt_conv_Cons TLBEntry_default_def)
  have h4: "TLB_page_walk tlb_mapped (extract_vpn 0x401234 KB_4) KB_4 = Some 0x12345"
    by (simp add: TLB_page_walk_def tlb_mapped_def extract_vpn_def)
  from TLB_translate_miss_installs[OF h1 h2 h3 h4, of False] h1 h2 h3 h4
  show ?thesis by blast
qed

text \<open>
  C1, as the claim states it, fails: a mapping installed with
  \<open>writable=False\<close> is walked on the first translation of its page, and the
  entry installed in slot 0 is writable.
\<close>

theorem TLB_installed_entry_ignores_given_permissions:
  "TLB_install_mapping (TLB_init 2 32) 0x401000 0x12345000 KB_4 True False False = tlb_mapped \<and>
   TLB_translate tlb_mapped 0x401234 KB_4 False = Inr (Some 0x12345234, tlb_walked) \<and>
   e_writable (t_entries tlb_walked ! 0)"
  by (simp add: TLB_install_mapping_def TLB_init_def tlb_mapped_def tlb_walked_def
      numeral_2_eq_2 TLB_translate_def TLB_translate_hit_def TLB_translate_miss_def
      TLB_page_walk_def TLB_find_entry_def TLB_find_victim_def TLB_update_lru_def
      extract_vpn_def extract_offset_def construct_pa_def
      entry_at_def upt_conv_Cons TLBEntry_default_def Let_def)


section \<open>Page walker: the stored page table entry\<close>

lemma length_to_bytes_le [simp]: "length (to_bytes_le n v) = n"
  by (induction n arbitrary: v) simp_all

lemma from_to_bytes_le: "from_bytes_le (to_bytes_le n v) = take_bit (8 * n) v"
proof (induction n arbitrary: v)
  case 0
  then show ?case by simp
next
  case (Suc n)
  have "take_bit (8 * Suc n) v = v mod (2 ^ 8 * 2 ^ (8 * n))"
    by (simp add: take_bit_eq_mod power_add)
  also have "\<dots> = 2 ^ 8 * (v div 2 ^ 8 mod 2 ^ (8 * n)) + v mod 2 ^ 8"
    by (rule zmod_zmult2_eq) simp
  finally have "take_bit (8 * Suc n) v = take_bit 8 v + 256 * take_bit (8 * n) (drop_bit 8 v)"
    by (simp add: take_bit_eq_mod drop_bit_eq_div)
  with Suc show ?case by (simp add: uint_word_of_int_eq)
qed

lemma int_to_bytes_roundtrip:
  "int_to_bytes n v = Inr bs \<Longrightarrow> from_bytes_le bs = v \<and> length bs = n"
  by (auto simp: int_to_bytes_def from_to_bytes_le take_bit_int_eq_self split: if_splits)

lemma bit_test:
  "((x::int) AND 0x01 \<noteq> 0) = bit x 0"
  "((x::int) AND 0x02 \<noteq> 0) = bit x 1"
  "((x::int) AND 0x04 \<noteq> 0) = bit x 2"
  "((x::int) AND 0x08 \<noteq> 0) = bit x 3"
  "((x::int) AND 0x10 \<noteq> 0) = bit x 4"
  "((x::int) AND 0x20 \<noteq> 0) = bit x 5"
  "((x::int) AND 0x40 \<noteq> 0) = bit x 6"
  "((x::int) AND 0x80 \<noteq> 0) = bit x 7"
  using and_exp_eq_0_iff_not_bit[of x 0] and_exp_eq_0_iff_not_bit[of x 1]
    and_exp_eq_0_iff_not_bit[of x 2] and_exp_eq_0_iff_not_bit[of x 3]
    and_exp_eq_0_iff_not_bit[of x 4] and_exp_eq_0_iff_not_bit[of x 5]
    and_exp_eq_0_iff_not_bit[of x 6] and_exp_eq_0_iff_not_bit[of x 7]
  by simp_all

lemma pte_flags_bits:
  "bit (pte_flags pte) 0 = pte_valid pte"
  "bit (pte_flags pte) (Suc 0) = pte_readable pte"
  "bit (pte_flags pte) 2 = pte_writable pte"
  "bit (pte_flags pte) 3 = pte_executable pte"
  "bit (pte_flags pte) 4 = pte_user pte"
  "bit (pte_flags pte) 5 = pte_global_page pte"
  "bit (pte_flags pte) 6 = pte_accessed pte"
  "bit (pte_flags pte) 7 = pte_dirty pte"
  by (simp_all add: pte_flags_def Let_def bit_or_iff)

lemma flag_step:
  "0 \<le> f \<and> f < 2 ^ 8 \<Longrightarrow> 0 \<le> m \<and> m < 2 ^ 8 \<Longrightarrow>
     0 \<le> (if b then f OR m else f) \<and> (if b then f OR m else f) < (2 ^ 8 :: int)"
  using OR_upper[of f 8 m] by auto

lemma pte_flags_range: "0 \<le> pte_flags pte \<and> pte_flags pte < 2 ^ 8"
  unfolding pte_flags_def Let_def
  by (intro flag_step) simp_all

lemma pte_flags_high: "8 \<le> n \<Longrightarrow> \<not> bit (pte_flags pte) n"
proof -
  assume n: "8 \<le> n"
  from pte_flags_range[of pte] have "take_bit 8 (pte_flags pte) = pte_flags pte"
    by (simp add: take_bit_int_eq_self)
  then have "bit (pte_flags pte) n = bit (take_bit 8 (pte_flags pte)) n" by simp
  also have "\<dots> = False" using n by (simp add: bit_take_bit_iff)
  finally show ?thesis by simp
qed

lemma pte_encode_bits:
  "n < 10 \<Longrightarrow> bit (pte_encode pte) n = bit (pte_flags pte) n"
  by (simp add: pte_encode_def bit_or_iff bit_push_bit_iff)

lemma pte_encode_ppn: "drop_bit 10 (pte_encode pte) = pte_ppn pte"
  by (rule bit_eqI)
    (simp add: pte_encode_def bit_drop_bit_eq bit_or_iff bit_push_bit_iff pte_flags_high)

lemma pte_decode_encode:
  "pte_decode (pte_encode pte) =
     pte\<lparr>pte_is_leaf := (pte_readable pte \<or> pte_writable pte \<or> pte_executable pte)\<rparr>"
  by (cases pte)
    (simp add: pte_decode_def Let_def bit_test pte_encode_bits pte_flags_bits pte_encode_ppn
      del: bit_0)

lemma slice_read_write:
  "off \<le> length tbl \<Longrightarrow> length bs = 8 \<Longrightarrow>
     take 8 (drop off (take off tbl @ bs @ drop (off + 8) tbl)) = bs"
  by simp

lemma Sv39_read_after_write:
  assumes "Sv39_write_pte s table_pa index pte = Inr s'"
    and "w_memory s table_pa = Some tbl" and "index * 8 \<le> length tbl"
  shows "Sv39_read_pte s' table_pa index =
     Inr (pte\<lparr>pte_is_leaf := (pte_readable pte \<or> pte_writable pte \<or> pte_executable pte)\<rparr>)"
proof -
  from assms(1) obtain bs where bs: "int_to_bytes 8 (pte_encode pte) = Inr bs"
    by (auto simp: Sv39_write_pte_def Let_def split: sum.splits)
  from int_to_bytes_roundtrip[OF bs] have rt: "from_bytes_le bs = pte_encode pte" "length bs = 8"
    by simp_all
  from assms(1,2) bs have m: "w_memory s' table_pa =
      Some (take (index * 8) tbl @ bs @ drop (index * 8 + 8) tbl)"
    by (auto simp: Sv39_write_pte_def Let_def)
  show ?thesis
    using m rt assms(3) by (simp add: Sv39_read_pte_def Let_def pte_decode_encode)
qed


lemma to_bytes_le_nth:
  "k < n \<Longrightarrow> to_bytes_le n v ! k = word_of_int (drop_bit (8 * k) v)"
proof (induction n arbitrary: v k)
  case 0
  then show ?case by simp
next
  case (Suc n)
  show ?case
  proof (cases k)
    case 0
    then show ?thesis by simp
  next
    case (Suc j)
    with Suc.prems have "j < n" by simp
    from Suc.IH[OF this, of "drop_bit 8 v"] Suc show ?thesis
      by (simp add: add.commute)
  qed
qed

lemma to_bytes_le_8:
  "to_bytes_le 8 v =
     [word_of_int v, word_of_int (drop_bit 8 v), word_of_int (drop_bit 16 v),
      word_of_int (drop_bit 24 v), word_of_int (drop_bit 32 v), word_of_int (drop_bit 40 v),
      word_of_int (drop_bit 48 v), word_of_int (drop_bit 56 v)]"
proof -
  have "to_bytes_le 8 v = to_bytes_le (Suc (Suc (Suc (Suc (Suc (Suc (Suc (Suc 0)))))))) v"
    by (rule arg_cong[where f = "\<lambda>n. to_bytes_le n v"]) simp
  then show ?thesis by (simp add: drop_bit_drop_bit)
qed

lemma from_bytes_le_zeros [simp]: "from_bytes_le (replicate n 0) = 0"
  by (induction n) simp_all

lemma pte_decode_0 [simp]: "pte_decode 0 = PageTableEntry_default"
  by (simp add: pte_decode_def PageTableEntry_default_def)

text \<open>
  C6. When \<open>_write_pte\<close> stores an entry in slot \<open>index\<close> of a 4096-byte table
  (that is, \<open>to_bytes\<close> accepts the word and the table exists), the eight bytes
  of the slot are the little-endian bytes of a 64-bit word \<open>v\<close> (byte \<open>k\<close> is
  bits \<open>8k+7..8k\<close>) with \<open>v >> 10\<close> the PPN and bits 0 to 7 the flags valid,
  readable, writable, executable, user, global, accessed, dirty; and
  \<open>_read_pte\<close> of the same slot returns all those fields, with \<open>is_leaf\<close>
  recomputed as readable or writable or executable.
\<close>

theorem Sv39_pte_layout_roundtrip:
  assumes "Sv39_write_pte s table_pa index pte = Inr s'"
    and "w_memory s table_pa = Some tbl" and "length tbl = 4096" and "index < 512"
  shows "\<exists>tbl' stored v.
      w_memory s' table_pa = Some tbl' \<and> length tbl' = 4096 \<and>
      stored = take 8 (drop (index * 8) tbl') \<and> v = from_bytes_le stored \<and>
      length stored = 8 \<and>
      (\<forall>k<8. stored ! k = word_of_int (drop_bit (8 * k) v)) \<and>
      0 \<le> v \<and> v < 2 ^ 64 \<and>
      drop_bit 10 v = pte_ppn pte \<and>
      bit v 0 = pte_valid pte \<and> bit v 1 = pte_readable pte \<and>
      bit v 2 = pte_writable pte \<and> bit v 3 = pte_executable pte \<and>
      bit v 4 = pte_user pte \<and> bit v 5 = pte_global_page pte \<and>
      bit v 6 = pte_accessed pte \<and> bit v 7 = pte_dirty pte \<and>
      Sv39_read_pte s' table_pa index =
        Inr (pte\<lparr>pte_is_leaf := (pte_readable pte \<or> pte_writable pte \<or> pte_executable pte)\<rparr>)"
proof -
  let ?v = "pte_encode pte"
  from assms(1) obtain bs where bs: "int_to_bytes 8 ?v = Inr bs"
    by (auto simp: Sv39_write_pte_def Let_def split: sum.splits)
  then have rng: "0 \<le> ?v" "?v < 2 ^ 64" and bs_def: "bs = to_bytes_le 8 ?v"
    by (auto simp: int_to_bytes_def split: if_splits)
  from int_to_bytes_roundtrip[OF bs] have rt: "from_bytes_le bs = ?v" "length bs = 8"
    by simp_all
  let ?tbl' = "take (index * 8) tbl @ bs @ drop (index * 8 + 8) tbl"
  from assms(1,2) bs have m: "w_memory s' table_pa = Some ?tbl'"
    by (auto simp: Sv39_write_pte_def Let_def)
  from assms(3,4) have off: "index * 8 + 8 \<le> length tbl" by simp
  then have len: "length ?tbl' = 4096" using rt(2) assms(3) by simp
  from off rt(2) have st: "take 8 (drop (index * 8) ?tbl') = bs" by simp
  have le: "\<forall>k<8. bs ! k = word_of_int (drop_bit (8 * k) ?v)"
    by (simp add: bs_def to_bytes_le_nth)
  have bits: "bit ?v 0 = pte_valid pte" "bit ?v 1 = pte_readable pte"
    "bit ?v 2 = pte_writable pte" "bit ?v 3 = pte_executable pte"
    "bit ?v 4 = pte_user pte" "bit ?v 5 = pte_global_page pte"
    "bit ?v 6 = pte_accessed pte" "bit ?v 7 = pte_dirty pte"
    by (simp_all add: pte_encode_bits pte_flags_bits del: bit_0)
  from off have "index * 8 \<le> length tbl" by simp
  from Sv39_read_after_write[OF assms(1,2) this]
  have rd: "Sv39_read_pte s' table_pa index =
        Inr (pte\<lparr>pte_is_leaf := (pte_readable pte \<or> pte_writable pte \<or> pte_executable pte)\<rparr>)" .
  have st': "bs = take 8 (drop (index * 8) ?tbl')" using st by simp
  have rt': "?v = from_bytes_le bs" using rt(1) by simp
  have ppn: "drop_bit 10 ?v = pte_ppn pte" by (rule pte_encode_ppn)
  have "w_memory s' table_pa = Some ?tbl' \<and> length ?tbl' = 4096 \<and>
      bs = take 8 (drop (index * 8) ?tbl') \<and> ?v = from_bytes_le bs \<and>
      length bs = 8 \<and>
      (\<forall>k<8. bs ! k = word_of_int (drop_bit (8 * k) ?v)) \<and>
      0 \<le> ?v \<and> ?v < 2 ^ 64 \<and>
      drop_bit 10 ?v = pte_ppn pte \<and>
      bit ?v 0 = pte_valid pte \<and> bit ?v 1 = pte_readable pte \<and>
      bit ?v 2 = pte_writable pte \<and> bit ?v 3 = pte_executable pte \<and>
      bit ?v 4 = pte_user pte \<and> bit ?v 5 = pte_global_page pte \<and>
      bit ?v 6 = pte_accessed pte \<and> bit ?v 7 = pte_dirty pte \<and>
      Sv39_read_pte s' table_pa index =
        Inr (pte\<lparr>pte_is_leaf := (pte_readable pte \<or> pte_writable pte \<or> pte_executable pte)\<rparr>)"
    using m len st' rt' rt(2) le rng ppn bits rd by - (intro conjI; assumption)
  then show ?thesis
    by (intro exI[of _ ?tbl'] exI[of _ bs] exI[of _ ?v])
qed


theorem Sv39_pte_layout_roundtrip_witness:
  "Sv39_write_pte walker_fresh 0x10000 1 pte_rw = Inr walker_written \<and>
   w_memory walker_fresh 0x10000 = Some (replicate 4096 0) \<and>
   length (replicate 4096 (0::byte)) = 4096 \<and> (1::nat) < 512 \<and>
   Sv39_read_pte walker_written 0x10000 1 = Inr pte_rw"
proof -
  have e: "pte_encode pte_rw = 0x48D1417"
    by (simp add: pte_rw_def pte_encode_def pte_flags_def Let_def)
  have b: "to_bytes_le 8 0x48D1417 = [0x17, 0x14, 0x8D, 0x04, 0, 0, 0, 0]"
    by (simp add: to_bytes_le_8 word_uint_eq_iff)
  have h1: "Sv39_write_pte walker_fresh 0x10000 1 pte_rw = Inr walker_written"
    by (simp add: Sv39_write_pte_def walker_fresh_def walker_written_def e b
        int_to_bytes_def Let_def)
  have h2: "w_memory walker_fresh 0x10000 = Some (replicate 4096 0)"
    by (simp add: walker_fresh_def)
  have h3: "length (replicate 4096 (0::byte)) = 4096" by simp
  have h4: "(1::nat) < 512" by simp
  from Sv39_pte_layout_roundtrip[OF h1 h2 h3 h4]
  have "Sv39_read_pte walker_written 0x10000 1 =
      Inr (pte_rw\<lparr>pte_is_leaf :=
              (pte_readable pte_rw \<or> pte_writable pte_rw \<or> pte_executable pte_rw)\<rparr>)"
    by blast
  then have "Sv39_read_pte walker_written 0x10000 1 = Inr pte_rw"
    by (simp add: pte_rw_def)
  with h1 h2 h3 h4 show ?thesis by (intro conjI)
qed


section \<open>Page walker: superpage leaves\<close>

lemma Sv39_read_pte_is_leaf:
  "Sv39_read_pte s t i = Inr p \<Longrightarrow>
     pte_is_leaf p = (pte_readable p \<or> pte_writable p \<or> pte_executable p)"
  by (auto simp: Sv39_read_pte_def pte_decode_def Let_def split: option.splits)

lemma Sv39_read_pte_cong:
  "w_memory s' t = w_memory s t \<Longrightarrow> Sv39_read_pte s' t i = Sv39_read_pte s t i"
  by (simp add: Sv39_read_pte_def)

lemma Sv39_read_pte_counters [simp]:
  "Sv39_read_pte (s\<lparr>w_page_walks := n\<rparr>) t i = Sv39_read_pte s t i"
  by (simp add: Sv39_read_pte_def)

lemma Sv39_translate_leaf_l2:
  assumes "Sv39_read_pte s (w_satp s) (nat (drop_bit 30 va AND 0x1FF)) = Inr pte_l2"
    and "pte_valid pte_l2"
    and "pte_readable pte_l2 \<or> pte_writable pte_l2 \<or> pte_executable pte_l2"
  shows "Sv39_translate s va is_write =
        Inr (Some (push_bit 30 (pte_ppn pte_l2) OR (va AND 0x3FFFFFFF)),
             s\<lparr>w_page_walks := w_page_walks s + 1\<rparr>)"
proof -
  from assms(1,3) have "pte_is_leaf pte_l2" using Sv39_read_pte_is_leaf by blast
  with assms show ?thesis
    by (simp add: Sv39_translate_def decompose_va_def Let_def)
qed

lemma Sv39_translate_leaf_l1:
  assumes "Sv39_read_pte s (w_satp s) (nat (drop_bit 30 va AND 0x1FF)) = Inr pte_l2"
    and "pte_valid pte_l2"
    and "\<not> (pte_readable pte_l2 \<or> pte_writable pte_l2 \<or> pte_executable pte_l2)"
    and "Sv39_read_pte s (push_bit 12 (pte_ppn pte_l2)) (nat (drop_bit 21 va AND 0x1FF)) = Inr pte_l1"
    and "pte_valid pte_l1"
    and "pte_readable pte_l1 \<or> pte_writable pte_l1 \<or> pte_executable pte_l1"
  shows "Sv39_translate s va is_write =
        Inr (Some (push_bit 21 (pte_ppn pte_l1) OR (va AND 0x1FFFFF)),
             s\<lparr>w_page_walks := w_page_walks s + 1\<rparr>)"
proof -
  from assms(1,3) have "\<not> pte_is_leaf pte_l2" using Sv39_read_pte_is_leaf by blast
  moreover from assms(4,6) have "pte_is_leaf pte_l1" using Sv39_read_pte_is_leaf by blast
  ultimately show ?thesis using assms
    by (simp add: Sv39_translate_def decompose_va_def Let_def)
qed

text \<open>
  C5. If the level-2 entry read for the address is valid and has one of R, W, X
  set, \<open>translate\<close> returns \<open>(ppn << 30) | (va & 0x3FFFFFFF)\<close>; if it is a
  valid pointer and the level-1 entry read through it is valid with one of
  R, W, X set, \<open>translate\<close> returns \<open>(ppn << 21) | (va & 0x1FFFFF)\<close>. No
  lower table is read: any walker with the same root pointer and the same
  bytes in the root table (and, for the second case, in the level-1 table)
  returns the same value, whatever its other tables hold or lack.
\<close>

theorem Sv39_translate_superpage:
  fixes s :: Walker
  shows
  "(Sv39_read_pte s (w_satp s) (nat (drop_bit 30 va AND 0x1FF)) = Inr pte_l2 \<and>
    pte_valid pte_l2 \<and> (pte_readable pte_l2 \<or> pte_writable pte_l2 \<or> pte_executable pte_l2)
    \<longrightarrow>
      Sv39_translate s va is_write =
        Inr (Some (push_bit 30 (pte_ppn pte_l2) OR (va AND 0x3FFFFFFF)),
             s\<lparr>w_page_walks := w_page_walks s + 1\<rparr>) \<and>
      (\<forall>s' :: Walker.
         w_satp s' = w_satp s \<and> w_memory s' (w_satp s) = w_memory s (w_satp s) \<longrightarrow>
         map_sum id fst (Sv39_translate s' va is_write) =
         map_sum id fst (Sv39_translate s va is_write))) \<and>
   (Sv39_read_pte s (w_satp s) (nat (drop_bit 30 va AND 0x1FF)) = Inr pte_l2 \<and>
    pte_valid pte_l2 \<and> \<not> (pte_readable pte_l2 \<or> pte_writable pte_l2 \<or> pte_executable pte_l2) \<and>
    Sv39_read_pte s (push_bit 12 (pte_ppn pte_l2)) (nat (drop_bit 21 va AND 0x1FF)) = Inr pte_l1 \<and>
    pte_valid pte_l1 \<and> (pte_readable pte_l1 \<or> pte_writable pte_l1 \<or> pte_executable pte_l1)
    \<longrightarrow>
      Sv39_translate s va is_write =
        Inr (Some (push_bit 21 (pte_ppn pte_l1) OR (va AND 0x1FFFFF)),
             s\<lparr>w_page_walks := w_page_walks s + 1\<rparr>) \<and>
      (\<forall>s' :: Walker.
         w_satp s' = w_satp s \<and> w_memory s' (w_satp s) = w_memory s (w_satp s) \<and>
         w_memory s' (push_bit 12 (pte_ppn pte_l2)) = w_memory s (push_bit 12 (pte_ppn pte_l2))
         \<longrightarrow>
         map_sum id fst (Sv39_translate s' va is_write) =
         map_sum id fst (Sv39_translate s va is_write)))"
proof -
  have A: "map_sum id fst (Sv39_translate s' va is_write) =
         map_sum id fst (Sv39_translate s va is_write)"
    if r: "Sv39_read_pte s (w_satp s) (nat (drop_bit 30 va AND 0x1FF)) = Inr pte_l2"
      and v: "pte_valid pte_l2"
      and p: "pte_readable pte_l2 \<or> pte_writable pte_l2 \<or> pte_executable pte_l2"
      and e: "w_satp s' = w_satp s" "w_memory s' (w_satp s) = w_memory s (w_satp s)"
    for s' :: Walker
  proof -
    from e r have "Sv39_read_pte s' (w_satp s') (nat (drop_bit 30 va AND 0x1FF)) = Inr pte_l2"
      using Sv39_read_pte_cong[of s' "w_satp s" s] by simp
    from Sv39_translate_leaf_l2[OF this v p, of is_write]
      Sv39_translate_leaf_l2[OF r v p, of is_write]
    show ?thesis by simp
  qed
  have B: "map_sum id fst (Sv39_translate s' va is_write) =
         map_sum id fst (Sv39_translate s va is_write)"
    if r: "Sv39_read_pte s (w_satp s) (nat (drop_bit 30 va AND 0x1FF)) = Inr pte_l2"
      and v: "pte_valid pte_l2"
      and p: "\<not> (pte_readable pte_l2 \<or> pte_writable pte_l2 \<or> pte_executable pte_l2)"
      and r1: "Sv39_read_pte s (push_bit 12 (pte_ppn pte_l2)) (nat (drop_bit 21 va AND 0x1FF)) = Inr pte_l1"
      and v1: "pte_valid pte_l1"
      and p1: "pte_readable pte_l1 \<or> pte_writable pte_l1 \<or> pte_executable pte_l1"
      and e: "w_satp s' = w_satp s" "w_memory s' (w_satp s) = w_memory s (w_satp s)"
        "w_memory s' (push_bit 12 (pte_ppn pte_l2)) = w_memory s (push_bit 12 (pte_ppn pte_l2))"
    for s' :: Walker
  proof -
    from e r have r': "Sv39_read_pte s' (w_satp s') (nat (drop_bit 30 va AND 0x1FF)) = Inr pte_l2"
      using Sv39_read_pte_cong[of s' "w_satp s" s] by simp
    from e r1 have r1': "Sv39_read_pte s' (push_bit 12 (pte_ppn pte_l2))
         (nat (drop_bit 21 va AND 0x1FF)) = Inr pte_l1"
      using Sv39_read_pte_cong[of s' "push_bit 12 (pte_ppn pte_l2)" s] by simp
    from Sv39_translate_leaf_l1[OF r' v p r1' v1 p1, of is_write]
      Sv39_translate_leaf_l1[OF r v p r1 v1 p1, of is_write]
    show ?thesis by simp
  qed
  show ?thesis
    using Sv39_translate_leaf_l2[of s va pte_l2 is_write]
      Sv39_translate_leaf_l1[of s va pte_l2 pte_l1 is_write] A B
    by blast
qed


theorem Sv39_translate_superpage_witness:
  "Sv39_read_pte walker_written (w_satp walker_written) (nat (drop_bit 30 0x40001234 AND 0x1FF))
     = Inr pte_rw \<and>
   pte_valid pte_rw \<and> (pte_readable pte_rw \<or> pte_writable pte_rw \<or> pte_executable pte_rw) \<and>
   Sv39_translate walker_written 0x40001234 True =
     Inr (Some 0x48D140001234, walker_written\<lparr>w_page_walks := 1\<rparr>) \<and>
   Sv39_read_pte walker_mega (w_satp walker_mega) (nat (drop_bit 30 0x401234 AND 0x1FF))
     = Inr pte_ptr \<and>
   pte_valid pte_ptr \<and>
   \<not> (pte_readable pte_ptr \<or> pte_writable pte_ptr \<or> pte_executable pte_ptr) \<and>
   Sv39_read_pte walker_mega (push_bit 12 (pte_ppn pte_ptr)) (nat (drop_bit 21 0x401234 AND 0x1FF))
     = Inr pte_rw \<and>
   Sv39_translate walker_mega 0x401234 False =
     Inr (Some 0x2468A01234, walker_mega\<lparr>w_page_walks := 1\<rparr>)"
proof -
  have a1: "Sv39_read_pte walker_written (w_satp walker_written)
      (nat (drop_bit 30 0x40001234 AND 0x1FF)) = Inr pte_rw"
    by (simp add: Sv39_read_pte_def walker_written_def pte_rw_def pte_decode_def Let_def)
  have a2: "pte_valid pte_rw" by (simp add: pte_rw_def)
  have a3: "pte_readable pte_rw \<or> pte_writable pte_rw \<or> pte_executable pte_rw"
    by (simp add: pte_rw_def)
  have b1: "Sv39_read_pte walker_mega (w_satp walker_mega)
      (nat (drop_bit 30 0x401234 AND 0x1FF)) = Inr pte_ptr"
    by (simp add: Sv39_read_pte_def walker_mega_def pte_ptr_def pte_decode_def Let_def)
  have b2: "pte_valid pte_ptr" by (simp add: pte_ptr_def)
  have b3: "\<not> (pte_readable pte_ptr \<or> pte_writable pte_ptr \<or> pte_executable pte_ptr)"
    by (simp add: pte_ptr_def)
  have b4: "Sv39_read_pte walker_mega (push_bit 12 (pte_ppn pte_ptr))
      (nat (drop_bit 21 0x401234 AND 0x1FF)) = Inr pte_rw"
    by (simp add: Sv39_read_pte_def walker_mega_def pte_ptr_def pte_rw_def pte_decode_def Let_def)
  from Sv39_translate_superpage[of walker_written "0x40001234" pte_rw True] a1 a2 a3
  have c1: "Sv39_translate walker_written 0x40001234 True =
     Inr (Some 0x48D140001234, walker_written\<lparr>w_page_walks := 1\<rparr>)"
    by (simp add: pte_rw_def walker_written_def)
  from Sv39_translate_superpage[of walker_mega "0x401234" pte_ptr False pte_rw] b1 b2 b3 b4 a2 a3
  have c2: "Sv39_translate walker_mega 0x401234 False =
     Inr (Some 0x2468A01234, walker_mega\<lparr>w_page_walks := 1\<rparr>)"
    by (simp add: pte_rw_def walker_mega_def)
  from a1 a2 a3 c1 b1 b2 b3 b4 c2 show ?thesis by (intro conjI)
qed


section \<open>Page walker: map\_page followed by translate\<close>

text \<open>Evaluation of the walker on concrete inputs.\<close>

lemmas walker_eval =
  Sv39_map_page_def map_page_level_def Sv39_read_pte_def Sv39_write_pte_def Let_def
  allocate_page_table_def PageTableEntry_default_def pte_encode_def pte_flags_def
  int_to_bytes_def to_bytes_le_8 decompose_va_def Sv39_translate_def Sv39_fault_def
  pte_decode_def

lemma byte_norm:
  "(16385::byte) = 0x01" "(32769::byte) = 0x01" "(49153::byte) = 0x01"
  "(76354583::byte) = 0x17" "(298260::byte) = 0x14" "(1165::byte) = 0x8D"
  by (simp_all add: word_uint_eq_iff)

text \<open>A walker just constructed has no mapping: every translation faults.\<close>

lemma Walker_init_unmapped_faults:
  "Sv39_translate (Walker_init r0) va is_write =
     Inr (None, (Walker_init r0)\<lparr>w_page_walks := 1, w_page_faults := 1\<rparr>)"
  by (simp add: Walker_init_def allocate_page_table_def Sv39_translate_def Sv39_read_pte_def
      Sv39_fault_def decompose_va_def Let_def PageTableEntry_default_def)

text \<open>
  With three different table addresses the scenario of the specification
  works: after \<open>map_page(0x401000, 0x12345000)\<close>, \<open>translate(0x401234)\<close> is
  \<open>0x12345234\<close>.
\<close>

lemma Sv39_map_page_example_distinct:
  "Sv39_map_page 0x20000 0x30000 walker_fresh 0x401000 0x12345000 True True False True
     = Inr walker_mapped \<and>
   Sv39_translate walker_mapped 0x401234 False =
     Inr (Some 0x12345234, walker_mapped\<lparr>w_page_walks := 1\<rparr>)"
proof -
  have 4: "Sv39_map_page 0x20000 0x30000 walker_fresh 0x401000 0x12345000 True True False True
     = Inr walker_mapped"
    by (simp add: walker_eval walker_fresh_def walker_mapped_def byte_norm)
  have 5: "Sv39_translate walker_mapped 0x401234 False =
     Inr (Some 0x12345234, walker_mapped\<lparr>w_page_walks := 1\<rparr>)"
    by (simp add: walker_eval walker_mapped_def)
  from 4 5 show ?thesis by (intro conjI)
qed

text \<open>
  When \<open>_write_pte\<close> succeeds, and the general case of the scenario: if the
  three table addresses are pairwise different, \<open>map_page\<close> on a new walker
  succeeds and every address of the mapped page translates to the mapped
  physical page plus the page offset (a write to a page mapped without write
  permission faults).
\<close>

lemma pte_encode_take_bit: "take_bit 10 (pte_encode pte) = pte_flags pte"
proof (rule bit_eqI)
  fix n
  show "bit (take_bit 10 (pte_encode pte)) n = bit (pte_flags pte) n"
  proof (cases "n < 10")
    case True
    then show ?thesis by (simp add: bit_take_bit_iff pte_encode_bits)
  next
    case False
    then have "8 \<le> n" by simp
    from pte_flags_high[OF this] False show ?thesis by (simp add: bit_take_bit_iff)
  qed
qed

lemma pte_encode_sum: "pte_encode pte = pte_ppn pte * 1024 + pte_flags pte"
  using bits_ident[of 10 "pte_encode pte"]
  by (simp add: pte_encode_ppn pte_encode_take_bit push_bit_eq_mult)

lemma pte_encode_range:
  "(0 \<le> pte_encode pte \<and> pte_encode pte < 2 ^ 64) = (0 \<le> pte_ppn pte \<and> pte_ppn pte < 2 ^ 54)"
  using pte_flags_range[of pte] by (auto simp: pte_encode_sum)

lemma Sv39_write_pte_succeeds:
  "(\<exists>s'. Sv39_write_pte s table_pa index pte = Inr s') =
     (w_memory s table_pa \<noteq> None \<and> 0 \<le> pte_ppn pte \<and> pte_ppn pte < 2 ^ 54)"
  using pte_encode_range[of pte]
  by (auto simp: Sv39_write_pte_def int_to_bytes_def Let_def split: option.splits)


lemma Sv39_read_pte_zero_table:
  "w_memory s t = Some (replicate 4096 0) \<Longrightarrow> Sv39_read_pte s t i = Inr PageTableEntry_default"
  by (simp add: Sv39_read_pte_def Let_def)

lemma Sv39_write_pte_result:
  assumes "w_memory s t = Some tbl" and "0 \<le> pte_ppn pte" and "pte_ppn pte < 2 ^ 54"
  shows "Sv39_write_pte s t i pte =
     Inr (s\<lparr>w_memory := (w_memory s)
            (t \<mapsto> take (i * 8) tbl @ to_bytes_le 8 (pte_encode pte) @ drop (i * 8 + 8) tbl)\<rparr>)"
  using assms pte_encode_range[of pte]
  by (simp add: Sv39_write_pte_def int_to_bytes_def Let_def)

lemma Sv39_read_pte_written:
  assumes "w_memory s t =
      Some (take (i * 8) tbl @ to_bytes_le 8 (pte_encode pte) @ drop (i * 8 + 8) tbl)"
    and "i * 8 \<le> length tbl" and "0 \<le> pte_ppn pte" and "pte_ppn pte < 2 ^ 54"
  shows "Sv39_read_pte s t i =
     Inr (pte\<lparr>pte_is_leaf := (pte_readable pte \<or> pte_writable pte \<or> pte_executable pte)\<rparr>)"
proof -
  from assms(3,4) pte_encode_range[of pte]
  have "take_bit 64 (pte_encode pte) = pte_encode pte"
    by (simp add: take_bit_int_eq_self)
  then have "from_bytes_le (to_bytes_le 8 (pte_encode pte)) = pte_encode pte"
    by (simp add: from_to_bytes_le)
  with assms(1,2) show ?thesis
    by (simp add: Sv39_read_pte_def Let_def pte_decode_encode)
qed

lemma page_aligned:
  "push_bit 12 (drop_bit 12 ((r::int) AND NOT 0xFFF)) = r AND NOT 0xFFF"
proof -
  have e: "(0xFFF::int) = mask 12" by (simp add: mask_eq_exp_minus_1)
  show ?thesis unfolding e
    by (auto intro!: bit_eqI simp: bit_simps)
qed

lemma rand_outcome_ppn:
  assumes "rand_outcome r"
  shows "0 \<le> drop_bit 12 (r AND NOT 0xFFF) \<and> drop_bit 12 (r AND NOT 0xFFF) < 2 ^ 54"
proof -
  from assms have r: "0 \<le> r" "r \<le> 0xFFFFFF" by (simp_all add: rand_outcome_def)
  then have 1: "0 \<le> r AND NOT 0xFFF" by simp
  from r(1) have "r AND NOT 0xFFF \<le> r" by (rule AND_upper1)
  with r(2) have 2: "r AND NOT 0xFFF \<le> 0xFFFFFF" by simp
  from 1 have a: "0 \<le> drop_bit 12 (r AND NOT 0xFFF)" by simp
  from 2 have "(r AND NOT 0xFFF) div 2 ^ 12 \<le> 0xFFFFFF div 2 ^ 12"
    by (intro zdiv_mono1) simp_all
  then have "drop_bit 12 (r AND NOT 0xFFF) < 2 ^ 54"
    by (simp add: drop_bit_eq_div)
  with a show ?thesis by simp
qed

lemma map_page_level_fresh:
  assumes z: "w_memory s t = Some (replicate 4096 0)"
    and r: "rand_outcome r" and ne: "r AND NOT 0xFFF \<noteq> t"
  shows "map_page_level s r t i =
     Inr (s\<lparr>w_memory := (w_memory s)
             (r AND NOT 0xFFF \<mapsto> replicate 4096 0,
              t \<mapsto> take (i * 8) (replicate 4096 0) @
                   to_bytes_le 8 (pte_encode (PageTableEntry_default
                      \<lparr>pte_valid := True, pte_ppn := drop_bit 12 (r AND NOT 0xFFF),
                       pte_is_leaf := False\<rparr>)) @
                   drop (i * 8 + 8) (replicate 4096 0))\<rparr>,
          PageTableEntry_default
            \<lparr>pte_valid := True, pte_ppn := drop_bit 12 (r AND NOT 0xFFF), pte_is_leaf := False\<rparr>)"
proof -
  let ?N = "r AND NOT 0xFFF"
  let ?p = "PageTableEntry_default\<lparr>pte_valid := True, pte_ppn := drop_bit 12 ?N,
              pte_is_leaf := False\<rparr>"
  let ?s1 = "s\<lparr>w_memory := (w_memory s)(?N \<mapsto> replicate 4096 0)\<rparr>"
  from z ne have m: "w_memory ?s1 t = Some (replicate 4096 0)" by simp
  from rand_outcome_ppn[OF r] have b: "0 \<le> pte_ppn ?p" "pte_ppn ?p < 2 ^ 54" by simp_all
  have rd: "Sv39_read_pte s t i = Inr PageTableEntry_default"
    by (rule Sv39_read_pte_zero_table[OF z])
  from Sv39_write_pte_result[OF m b, of i] rd show ?thesis
    by (simp add: map_page_level_def allocate_page_table_def Let_def
        PageTableEntry_default_def)
qed


lemma vpn_index_bound: "nat ((x::int) AND 0x1FF) * 8 \<le> 4096"
proof -
  have "x AND 0x1FF \<le> 0x1FF" by (rule AND_upper2) simp
  then have "nat (x AND 0x1FF) \<le> 511" by linarith
  then show ?thesis by linarith
qed

lemma same_page_fields:
  assumes "drop_bit 12 (va'::int) = drop_bit 12 va"
  shows "drop_bit 21 va' = drop_bit 21 va" "drop_bit 30 va' = drop_bit 30 va"
proof -
  have split: "x div 2 ^ 21 = x div 2 ^ 12 div 2 ^ 9" "x div 2 ^ 30 = x div 2 ^ 12 div 2 ^ 18"
    for x :: int
  proof -
    have "x div (2 ^ 12 * 2 ^ 9) = x div 2 ^ 12 div 2 ^ 9" by (rule zdiv_zmult2_eq) simp
    then show "x div 2 ^ 21 = x div 2 ^ 12 div 2 ^ 9" by simp
    have "x div (2 ^ 12 * 2 ^ 18) = x div 2 ^ 12 div 2 ^ 18" by (rule zdiv_zmult2_eq) simp
    then show "x div 2 ^ 30 = x div 2 ^ 12 div 2 ^ 18" by simp
  qed
  from assms have e: "va' div 2 ^ 12 = va div 2 ^ 12" by (simp add: drop_bit_eq_div)
  show "drop_bit 21 va' = drop_bit 21 va"
    unfolding drop_bit_eq_div split[of va'] split[of va] e ..
  show "drop_bit 30 va' = drop_bit 30 va"
    unfolding drop_bit_eq_div split[of va'] split[of va] e ..
qed

lemma Sv39_map_then_translate_distinct:
  assumes r: "rand_outcome r0" "rand_outcome r1" "rand_outcome r2"
    and d: "r1 AND NOT 0xFFF \<noteq> r0 AND NOT 0xFFF" "r2 AND NOT 0xFFF \<noteq> r0 AND NOT 0xFFF"
      "r2 AND NOT 0xFFF \<noteq> r1 AND NOT 0xFFF"
    and pa: "0 \<le> pa" "pa < 2 ^ 66"
    and page: "drop_bit 12 va' = drop_bit 12 va"
  shows "\<exists>s. Sv39_map_page r1 r2 (Walker_init r0) va pa readable writable executable user = Inr s \<and>
      Sv39_translate s va' is_write =
        (if is_write \<and> \<not> writable
         then Inr (None, s\<lparr>w_page_walks := w_page_walks s + 1,
                            w_page_faults := w_page_faults s + 1\<rparr>)
         else Inr (Some (push_bit 12 (drop_bit 12 pa) OR (va' AND 0xFFF)),
                   s\<lparr>w_page_walks := w_page_walks s + 1\<rparr>))"
proof -
  let ?A = "r0 AND NOT 0xFFF" and ?B = "r1 AND NOT 0xFFF" and ?C = "r2 AND NOT 0xFFF"
  let ?Z = "replicate 4096 (0::byte)"
  let ?i2 = "nat (drop_bit 30 va AND 0x1FF)"
  let ?i1 = "nat (drop_bit 21 va AND 0x1FF)"
  let ?i0 = "nat (drop_bit 12 va AND 0x1FF)"
  let ?p2 = "PageTableEntry_default\<lparr>pte_valid := True, pte_ppn := drop_bit 12 ?B,
               pte_is_leaf := False\<rparr>"
  let ?p1 = "PageTableEntry_default\<lparr>pte_valid := True, pte_ppn := drop_bit 12 ?C,
               pte_is_leaf := False\<rparr>"
  let ?p0 = "\<lparr>pte_valid = True, pte_ppn = drop_bit 12 pa, pte_readable = readable,
             pte_writable = writable, pte_executable = executable, pte_user = user,
             pte_global_page = False, pte_accessed = False, pte_dirty = False,
             pte_is_leaf = True\<rparr>"
  let ?TA = "take (?i2 * 8) ?Z @ to_bytes_le 8 (pte_encode ?p2) @ drop (?i2 * 8 + 8) ?Z"
  let ?TB = "take (?i1 * 8) ?Z @ to_bytes_le 8 (pte_encode ?p1) @ drop (?i1 * 8 + 8) ?Z"
  let ?TC = "take (?i0 * 8) ?Z @ to_bytes_le 8 (pte_encode ?p0) @ drop (?i0 * 8 + 8) ?Z"
  let ?s0 = "Walker_init r0"
  have s0: "w_memory ?s0 = [?A \<mapsto> ?Z]" "w_satp ?s0 = ?A"
    "w_page_walks ?s0 = 0" "w_page_faults ?s0 = 0"
    by (simp_all add: Walker_init_def allocate_page_table_def Let_def)
  let ?s1 = "?s0\<lparr>w_memory := (w_memory ?s0)(?B \<mapsto> ?Z, ?A \<mapsto> ?TA)\<rparr>"
  have z0: "w_memory ?s0 ?A = Some ?Z" by (simp add: s0)
  have step1: "map_page_level ?s0 r1 ?A ?i2 = Inr (?s1, ?p2)"
    by (rule map_page_level_fresh[OF z0 r(2) d(1)])
  have l1: "push_bit 12 (pte_ppn ?p2) = ?B" using page_aligned[of r1] by simp
  let ?s2 = "?s1\<lparr>w_memory := (w_memory ?s1)(?C \<mapsto> ?Z, ?B \<mapsto> ?TB)\<rparr>"
  have z1: "w_memory ?s1 ?B = Some ?Z" using d(1) by simp
  have step2: "map_page_level ?s1 r2 ?B ?i1 = Inr (?s2, ?p1)"
    by (rule map_page_level_fresh[OF z1 r(3) d(3)])
  have l0: "push_bit 12 (pte_ppn ?p1) = ?C" using page_aligned[of r2] by simp
  have z2: "w_memory ?s2 ?C = Some ?Z" using d(3) by simp
  from pa have ppn: "0 \<le> pte_ppn ?p0" "pte_ppn ?p0 < 2 ^ 54"
  proof -
    from pa(1) show "0 \<le> pte_ppn ?p0" by simp
    from pa(2) have "pa div 2 ^ 12 < 2 ^ 54" by simp
    then show "pte_ppn ?p0 < 2 ^ 54" by (simp add: drop_bit_eq_div)
  qed
  let ?s3 = "?s2\<lparr>w_memory := (w_memory ?s2)(?C \<mapsto> ?TC)\<rparr>"
  have step3: "Sv39_write_pte ?s2 ?C ?i0 ?p0 = Inr ?s3"
    by (rule Sv39_write_pte_result[OF z2 ppn])
  have mp: "Sv39_map_page r1 r2 ?s0 va pa readable writable executable user = Inr ?s3"
    unfolding Sv39_map_page_def decompose_va_def Let_def
    by (simp only: prod.case s0(2) step1 sum.case l1 step2 l0 step3)
  let ?t = "?s3\<lparr>w_page_walks := w_page_walks ?s3 + 1\<rparr>"
  have mA: "w_memory ?t ?A = Some ?TA" using d by simp
  have mB: "w_memory ?t ?B = Some ?TB" using d by simp
  have mC: "w_memory ?t ?C = Some ?TC" by simp
  have zl: "?i2 * 8 \<le> length ?Z" "?i1 * 8 \<le> length ?Z" "?i0 * 8 \<le> length ?Z"
    using vpn_index_bound[of "drop_bit 30 va"] vpn_index_bound[of "drop_bit 21 va"]
      vpn_index_bound[of "drop_bit 12 va"] by simp_all
  from rand_outcome_ppn[OF r(2)] have b2: "0 \<le> pte_ppn ?p2" "pte_ppn ?p2 < 2 ^ 54" by simp_all
  from rand_outcome_ppn[OF r(3)] have b1: "0 \<le> pte_ppn ?p1" "pte_ppn ?p1 < 2 ^ 54" by simp_all
  have rA: "Sv39_read_pte ?t ?A ?i2 = Inr ?p2"
    using Sv39_read_pte_written[OF mA zl(1) b2] by (simp add: PageTableEntry_default_def)
  have rB: "Sv39_read_pte ?t ?B ?i1 = Inr ?p1"
    using Sv39_read_pte_written[OF mB zl(2) b1] by (simp add: PageTableEntry_default_def)
  have rC: "Sv39_read_pte ?t ?C ?i0 =
      Inr (?p0\<lparr>pte_is_leaf := (readable \<or> writable \<or> executable)\<rparr>)"
    using Sv39_read_pte_written[OF mC zl(3) ppn] by simp
  have sat: "w_satp ?t = ?A" by (simp add: s0)
  note f = same_page_fields[OF page]
  have tr: "Sv39_translate ?s3 va' is_write =
        (if is_write \<and> \<not> writable
         then Inr (None, ?s3\<lparr>w_page_walks := w_page_walks ?s3 + 1,
                            w_page_faults := w_page_faults ?s3 + 1\<rparr>)
         else Inr (Some (push_bit 12 (drop_bit 12 pa) OR (va' AND 0xFFF)),
                   ?s3\<lparr>w_page_walks := w_page_walks ?s3 + 1\<rparr>))"
    unfolding Sv39_translate_def decompose_va_def Let_def
    apply (simp only: prod.case f page sat rA sum.case l1 rB l0 rC)
    apply (simp add: PageTableEntry_default_def Sv39_fault_def)
    done
  from mp tr show ?thesis by blast
qed


text \<open>
  C4 at the failing input. \<open>_allocate_page_table\<close> draws the table address at
  random and does not look whether the address is in use. When the draw for
  the level-0 table gives the root table's address again (outcomes \<open>0x10000\<close>,
  \<open>0x20000\<close>, \<open>0x10000\<close>), the root table is zeroed in the middle of
  \<open>map_page(0x401000, 0x12345000)\<close>, its pointer in slot 0 is lost, and
  \<open>translate(0x401234)\<close> afterwards returns \<open>None\<close> (a page fault) instead of
  \<open>0x12345234\<close>.
\<close>

theorem Sv39_allocation_collision_loses_mapping:
  "rand_outcome 0x10000 \<and> rand_outcome 0x20000 \<and>
   Walker_init 0x10000 = walker_fresh \<and>
   Sv39_translate walker_fresh 0x500000 False =
     Inr (None, walker_fresh\<lparr>w_page_walks := 1, w_page_faults := 1\<rparr>) \<and>
   Sv39_map_page 0x20000 0x10000 walker_fresh 0x401000 0x12345000 True True False True
     = Inr walker_collided \<and>
   Sv39_translate walker_collided 0x401234 False =
     Inr (None, walker_collided\<lparr>w_page_walks := 1, w_page_faults := 1\<rparr>)"
proof -
  have 1: "rand_outcome 0x10000 \<and> rand_outcome 0x20000" by (simp add: rand_outcome_def)
  have 2: "Walker_init 0x10000 = walker_fresh"
    by (simp add: Walker_init_def allocate_page_table_def walker_fresh_def Let_def)
  have 3: "Sv39_translate walker_fresh 0x500000 False =
     Inr (None, walker_fresh\<lparr>w_page_walks := 1, w_page_faults := 1\<rparr>)"
    by (simp add: walker_eval walker_fresh_def)
  have 4: "Sv39_map_page 0x20000 0x10000 walker_fresh 0x401000 0x12345000 True True False True
     = Inr walker_collided"
    by (simp add: walker_eval walker_fresh_def walker_collided_def byte_norm)
  have 5: "Sv39_translate walker_collided 0x401234 False =
     Inr (None, walker_collided\<lparr>w_page_walks := 1, w_page_faults := 1\<rparr>)"
    by (simp add: walker_eval walker_collided_def)
  from 1 2 3 4 5 show ?thesis by (intro conjI) simp_all
qed


section \<open>Web application: the page-size string of the TLB endpoint\<close>

lemma map_of_page_size_map_None:
  "s \<notin> {''4KB'', ''2MB'', ''1GB''} \<Longrightarrow> map_of page_size_map s = None"
  by (simp add: page_size_map_def)

lemma app_unknown_eq:
  "s \<notin> {''4KB'', ''2MB'', ''1GB''} \<Longrightarrow> app_tlb_translate n va s = app_tlb_translate n va ''4KB''"
  by (simp add: app_tlb_translate_def map_of_page_size_map_None page_size_map_def)

lemma find_entry_loop_all_invalid:
  "\<forall>i \<in> set ws. i < length es \<and> \<not> e_valid (es ! i) \<Longrightarrow> find_entry_loop es vpn ps ws = Inr None"
  by (induction ws) (simp_all add: entry_at_def)

lemma TLB_find_entry_fresh:
  "TLB_find_entry (TLB_install_mapping (TLB_init n ab) va0 pa0 ps0 r w x) vpn ps = Inr None"
  by (simp add: TLB_find_entry_def TLB_install_mapping_def TLB_init_def Let_def
      find_entry_loop_all_invalid TLBEntry_default_def)

lemma drop_bit_and_not_mask:
  "drop_bit k ((a :: int) AND NOT (push_bit k 1 - 1)) = drop_bit k a"
proof -
  have "push_bit k (1::int) - 1 = mask k" by (simp add: mask_eq_exp_minus_1)
  then show ?thesis
    by (auto intro!: bit_eqI simp: bit_simps)
qed

lemma app_4KB_ok:
  assumes "0 < n"
  shows "app_tlb_translate n va ''4KB'' =
     Ok200 \<lparr>r_va = va,
            r_pa = (let pa = construct_pa
                          (extract_vpn (((va AND NOT (push_bit 12 1 - 1)) OR 0x10000000)
                                          AND NOT (push_bit 12 1 - 1)) KB_4)
                          (extract_offset va KB_4) KB_4
                    in if pa \<noteq> 0 then Some pa else None),
            r_hit = True, r_hits = 0, r_misses = 1, r_reach = 0\<rparr>"
proof -
  let ?va_page = "va AND NOT (push_bit 12 1 - 1)"
  let ?pa_page = "(?va_page OR 0x10000000) AND NOT (push_bit 12 1 - 1)"
  let ?s = "TLB_install_mapping (TLB_init n 32) ?va_page ?pa_page KB_4 True True False"
  have wf1: "0 < t_num_entries ?s" using assms
    by (simp add: TLB_install_mapping_def TLB_init_def Let_def)
  have wf2: "nat (t_num_entries ?s) \<le> length (t_entries ?s)"
    by (simp add: TLB_install_mapping_def TLB_init_def Let_def)
  have miss: "TLB_find_entry ?s (extract_vpn va KB_4) KB_4 = Inr None"
    by (rule TLB_find_entry_fresh)
  have "extract_vpn ?va_page KB_4 = extract_vpn va KB_4"
    using drop_bit_and_not_mask[of 12 va] by (simp add: extract_vpn_def)
  then have walk: "TLB_page_walk ?s (extract_vpn va KB_4) KB_4 = Some (extract_vpn ?pa_page KB_4)"
    by (simp add: TLB_page_walk_def TLB_install_mapping_def Let_def)
  from TLB_translate_miss_result[OF wf1 wf2 miss walk, of False] obtain v where
    "TLB_translate ?s va KB_4 False =
       Inr (Some (construct_pa (extract_vpn ?pa_page KB_4) (extract_offset va KB_4) KB_4),
            ?s\<lparr>t_misses := t_misses ?s + 1,
              t_global_lru_counter := t_global_lru_counter ?s + 1,
              t_entries := (t_entries ?s)[v :=
                \<lparr>e_valid = True, e_vpn = extract_vpn va KB_4, e_ppn = extract_vpn ?pa_page KB_4,
                 e_page_size = KB_4, e_readable = True, e_writable = True,
                 e_executable = False, e_dirty = False, e_accessed = True,
                 e_global_page = False,
                 e_lru_counter = t_global_lru_counter ?s + 1\<rparr>]\<rparr>)"
    by blast
  then show ?thesis
    by (simp add: app_tlb_translate_def page_size_map_def Let_def TLB_install_mapping_def
        TLB_init_def)
qed

text \<open>
  C8, as the code has it. A page-size string outside \<open>4KB\<close>, \<open>2MB\<close>, \<open>1GB\<close>
  is treated as \<open>4KB\<close>: the request is answered exactly as the same request
  with \<open>page_size = 4KB\<close>, and with at least one TLB entry that answer is the
  success response of a first translation (one miss, no hit).
\<close>

theorem app_tlb_translate_unknown_page_size:
  assumes "page_size_str \<notin> {''4KB'', ''2MB'', ''1GB''}"
  shows "app_tlb_translate num_entries va page_size_str = app_tlb_translate num_entries va ''4KB'' \<and>
    (0 < num_entries \<longrightarrow>
      app_tlb_translate num_entries va page_size_str =
       Ok200 \<lparr>r_va = va,
            r_pa = (let pa = construct_pa
                          (extract_vpn (((va AND NOT (push_bit 12 1 - 1)) OR 0x10000000)
                                          AND NOT (push_bit 12 1 - 1)) KB_4)
                          (extract_offset va KB_4) KB_4
                    in if pa \<noteq> 0 then Some pa else None),
            r_hit = True, r_hits = 0, r_misses = 1, r_reach = 0\<rparr>)"
  using app_unknown_eq[OF assms] app_4KB_ok by simp


theorem app_tlb_translate_unknown_page_size_witness:
  "''16KB'' \<notin> {''4KB'', ''2MB'', ''1GB''} \<and> (0::int) < 8 \<and>
   app_tlb_translate 8 0x7FF123 ''16KB'' = app_tlb_translate 8 0x7FF123 ''4KB'' \<and>
   app_tlb_translate 8 0x7FF123 ''16KB'' =
     Ok200 \<lparr>r_va = 0x7FF123, r_pa = Some 0x107FF123, r_hit = True,
            r_hits = 0, r_misses = 1, r_reach = 0\<rparr>"
proof -
  have h: "''16KB'' \<notin> {''4KB'', ''2MB'', ''1GB''}" by simp
  note t = app_tlb_translate_unknown_page_size[OF h, of 8 "0x7FF123"]
  from t have e1: "app_tlb_translate 8 0x7FF123 ''16KB'' = app_tlb_translate 8 0x7FF123 ''4KB''"
    by (rule conjunct1)
  from t have "(0::int) < 8 \<longrightarrow> app_tlb_translate 8 0x7FF123 ''16KB'' =
       Ok200 \<lparr>r_va = 0x7FF123,
            r_pa = (let pa = construct_pa
                          (extract_vpn (((0x7FF123 AND NOT (push_bit 12 1 - 1)) OR 0x10000000)
                                          AND NOT (push_bit 12 1 - 1)) KB_4)
                          (extract_offset 0x7FF123 KB_4) KB_4
                    in if pa \<noteq> 0 then Some pa else None),
            r_hit = True, r_hits = 0, r_misses = 1, r_reach = 0\<rparr>"
    by (rule conjunct2)
  then have e2: "app_tlb_translate 8 0x7FF123 ''16KB'' =
     Ok200 \<lparr>r_va = 0x7FF123, r_pa = Some 0x107FF123, r_hit = True,
            r_hits = 0, r_misses = 1, r_reach = 0\<rparr>"
    by (simp add: construct_pa_def extract_vpn_def extract_offset_def Let_def)
  have c: "(0::int) < 8" by simp
  from h c e1 e2 show ?thesis by (intro conjI)
qed

text \<open>
  C8, as the claim states it, fails: the request with \<open>page_size = 8KB\<close> (not in
  the enumeration) and the default 64 entries is answered with the success
  response, computed with 4 KiB pages.
\<close>

theorem app_tlb_translate_8KB_succeeds:
  "''8KB'' \<notin> {''4KB'', ''2MB'', ''1GB''} \<and>
   app_tlb_translate 64 0x401234 ''8KB'' =
     Ok200 \<lparr>r_va = 0x401234, r_pa = Some 0x10401234, r_hit = True,
            r_hits = 0, r_misses = 1, r_reach = 0\<rparr>"
proof -
  have 1: "''8KB'' \<notin> {''4KB'', ''2MB'', ''1GB''}" by simp
  have "app_tlb_translate 64 0x401234 ''4KB'' =
     Ok200 \<lparr>r_va = 0x401234, r_pa = Some 0x10401234, r_hit = True,
            r_hits = 0, r_misses = 1, r_reach = 0\<rparr>"
    using app_4KB_ok[of 64 "0x401234"]
    by (simp add: construct_pa_def extract_vpn_def extract_offset_def Let_def)
  with 1 app_unknown_eq[OF 1, of 64 "0x401234"] show ?thesis by simp
qed


end
